theory Spec2Isabelle
  imports Main "HOL-Library.Monad_Syntax"
begin

section \<open>Strings of the JavaScript runtime\<close>

text \<open>
  A JavaScript string is modelled by \<^typ>\<open>string\<close>: a sequence of code units, of which
  the type \<^typ>\<open>char\<close> covers the units 0 to 255. The operations below are the library
  methods the plugin calls on strings.
\<close>

text \<open>\<^verbatim>\<open>s.startsWith(p)\<close>\<close>

fun startsWith :: "string \<Rightarrow> string \<Rightarrow> bool" where
  "startsWith s [] = True"
| "startsWith [] (p # ps) = False"
| "startsWith (c # cs) (p # ps) = (c = p \<and> startsWith cs ps)"

text \<open>\<^verbatim>\<open>s.endsWith(p)\<close>\<close>

definition endsWith :: "string \<Rightarrow> string \<Rightarrow> bool" where
  "endsWith s p = startsWith (rev s) (rev p)"

text \<open>\<^verbatim>\<open>s.includes(p)\<close>\<close>

fun str_includes :: "string \<Rightarrow> string \<Rightarrow> bool" where
  "str_includes [] p = (p = [])"
| "str_includes (c # cs) p = (startsWith (c # cs) p \<or> str_includes cs p)"

text \<open>
  The white space of \<^verbatim>\<open>trimStart\<close> among the code units below 256: tab, line feed,
  vertical tab, form feed, carriage return, space and no-break space.
\<close>

definition is_white_space :: "char \<Rightarrow> bool" where
  "is_white_space c =
     (c = CHR 0x09 \<or> c = CHR 0x0A \<or> c = CHR 0x0B \<or> c = CHR 0x0C \<or> c = CHR 0x0D
      \<or> c = CHR 0x20 \<or> c = CHR 0xA0)"

definition trimStart :: "string \<Rightarrow> string" where
  "trimStart s = dropWhile is_white_space s"

text \<open>\<^verbatim>\<open>xs.join(sep)\<close> on an array of strings.\<close>

fun join :: "string \<Rightarrow> string list \<Rightarrow> string" where
  "join sep [] = []"
| "join sep [x] = x"
| "join sep (x # y # ys) = x @ sep @ join sep (y # ys)"

text \<open>The decimal form of a number, as string concatenation and \<^verbatim>\<open>String(n)\<close> give it.\<close>

definition digit_char :: "nat \<Rightarrow> char" where
  "digit_char d =
     (if d = 0 then CHR ''0'' else if d = 1 then CHR ''1'' else if d = 2 then CHR ''2''
      else if d = 3 then CHR ''3'' else if d = 4 then CHR ''4'' else if d = 5 then CHR ''5''
      else if d = 6 then CHR ''6'' else if d = 7 then CHR ''7'' else if d = 8 then CHR ''8''
      else CHR ''9'')"

fun nat_to_string :: "nat \<Rightarrow> string" where
  "nat_to_string n =
     (if n < 10 then [digit_char n] else nat_to_string (n div 10) @ [digit_char (n mod 10)])"

declare nat_to_string.simps [simp del]

definition int_to_string :: "int \<Rightarrow> string" where
  "int_to_string i = (if i < 0 then CHR ''-'' # nat_to_string (nat (- i)) else nat_to_string (nat i))"

section \<open>Values\<close>

text \<open>
  A JSON value, as \<^verbatim>\<open>JSON.parse\<close> returns it. Numbers are the integral ones that
  JavaScript writes in decimal digits; an object is the list of its own properties, each
  key once.
\<close>

datatype json =
    JNull
  | JBool bool
  | JNum int
  | JStr string
  | JArr "json list"
  | JObj "(string \<times> json) list"

text \<open>
  An argument of a console call. Of an object, the capture code observes five things, and
  the model of an object is the record of them:
  whether it is an \<^verbatim>\<open>instanceof Error\<close>; its \<^verbatim>\<open>stack\<close> property when that is a
  string (\<open>None\<close> when it is not; an error object whose \<^verbatim>\<open>stack\<close> has been set to a
  value that is neither a string nor undefined is not modelled); the string that
  \<^verbatim>\<open>arg.toString()\<close> returns; the value that \<^verbatim>\<open>JSON.parse(JSON.stringify(arg))\<close>
  returns; and the string that \<^verbatim>\<open>String(arg)\<close> returns. For the last three \<open>None\<close>
  says that the call throws.
\<close>

record js_object =
  instanceof_Error :: bool
  stack :: "string option"
  toString :: "string option"
  JSON_roundtrip :: "json option"
  String_of :: "string option"

datatype jsval =
    Undefined
  | Null
  | String string
  | Number int
  | Boolean bool
  | Function string
  | Object js_object

datatype js_error = TypeError | UserException

section \<open>The capture layer: \<^verbatim>\<open>createLogEntry\<close>\<close>

record log_entry =
  level :: string
  message :: string
  timestamp :: nat
  url :: "string option"
  userAgent :: string
  module :: string
  stacks :: "string list"
  extra :: "json list"

text \<open>
  What the record reads from its surroundings: \<^verbatim>\<open>new Date()\<close>, the window's
  \<^verbatim>\<open>location?.href\<close> (the outer \<open>None\<close> when there is no window) and the navigator's
  user agent (\<open>None\<close> when there is no navigator); and whether \<^verbatim>\<open>console.warn\<close> is
  there when a delivery fails.
\<close>

record client_env =
  now :: nat
  window_href :: "string option option"
  navigator_userAgent :: "string option"
  has_console_warn :: bool

definition placeholder :: "nat \<Rightarrow> string" where
  "placeholder n = ''[extra#'' @ nat_to_string n @ '']''"

text \<open>
  The body of the arrow function given to \<^verbatim>\<open>args.map\<close>, with the two arrays it pushes
  to passed in and out. The tests are in the order of the source: \<^verbatim>\<open>typeof arg.stack\<close>
  is evaluated before the test \<^verbatim>\<open>arg !== null\<close>, and reading a property of
  \<^verbatim>\<open>null\<close> is a TypeError.
\<close>

fun format_arg :: "jsval \<Rightarrow> string list \<Rightarrow> json list \<Rightarrow> js_error + (string \<times> string list \<times> json list)" where
  "format_arg Undefined sts exs = Inr (''undefined'', sts, exs)"
| "format_arg (String s) sts exs = Inr (s, sts, exs)"
| "format_arg Null sts exs = Inl TypeError"
| "format_arg (Object ob) sts exs =
     (if instanceof_Error ob \<or> stack ob \<noteq> None then
        (case toString ob of
           None \<Rightarrow> Inl UserException
         | Some stringifiedError \<Rightarrow>
             Inr (stringifiedError,
                  (case stack ob of
                     None \<Rightarrow> sts
                   | Some st \<Rightarrow>
                       if st = [] then sts
                       else
                         let st' = (if startsWith st stringifiedError
                                    then trimStart (drop (length stringifiedError) st)
                                    else st)
                         in if st' = [] then sts else sts @ [st']),
                  exs))
      else
        (case JSON_roundtrip ob of
           Some v \<Rightarrow> Inr (placeholder (length (exs @ [v])), sts, exs @ [v])
         | None \<Rightarrow>
             (case String_of ob of
                None \<Rightarrow> Inl UserException
              | Some s \<Rightarrow> Inr (placeholder (length (exs @ [JStr s])), sts, exs @ [JStr s]))))"
| "format_arg (Number n) sts exs = Inr (int_to_string n, sts, exs)"
| "format_arg (Boolean b) sts exs = Inr (if b then ''true'' else ''false'', sts, exs)"
| "format_arg (Function src) sts exs = Inr (src, sts, exs)"

text \<open>\<^verbatim>\<open>args.map(...)\<close>: the arguments from left to right, stopping at the first throw.\<close>

fun map_args :: "jsval list \<Rightarrow> string list \<Rightarrow> json list \<Rightarrow> js_error + (string list \<times> string list \<times> json list)" where
  "map_args [] sts exs = Inr ([], sts, exs)"
| "map_args (a # as) sts exs =
     (case format_arg a sts exs of
        Inl e \<Rightarrow> Inl e
      | Inr (seg, sts', exs') \<Rightarrow>
          (case map_args as sts' exs' of
             Inl e \<Rightarrow> Inl e
           | Inr (segs, sts'', exs'') \<Rightarrow> Inr (seg # segs, sts'', exs'')))"

definition createLogEntry :: "client_env \<Rightarrow> string \<Rightarrow> string \<Rightarrow> jsval list \<Rightarrow> js_error + log_entry" where
  "createLogEntry env currentModuleContext lvl args =
     (case map_args args [] [] of
        Inl e \<Rightarrow> Inl e
      | Inr (segs, sts, exs) \<Rightarrow>
          Inr \<lparr> level = lvl,
                message = join '' '' segs,
                timestamp = now env,
                url = (case window_href env of None \<Rightarrow> Some ''extension-context'' | Some h \<Rightarrow> h),
                userAgent = (case navigator_userAgent env of None \<Rightarrow> ''extension-context'' | Some ua \<Rightarrow> ua),
                module = currentModuleContext,
                stacks = sts,
                extra = exs \<rparr>)"

section \<open>The batching transport\<close>

text \<open>
  The state of the injected module: its variables \<^verbatim>\<open>currentModuleContext\<close>,
  \<^verbatim>\<open>logBuffer\<close> and \<^verbatim>\<open>flushTimeout\<close>, and what it has done to its surroundings:
  the timers set by \<^verbatim>\<open>setTimeout\<close> that have neither fired nor been cleared (handle
  and delay), the number of timer handles issued, the interval timers set by
  \<^verbatim>\<open>setInterval\<close> (handle and period), the batches handed to \<^verbatim>\<open>fetch\<close>, and the calls
  of the original console methods (level and arguments).
\<close>

record client_state =
  currentModuleContext :: string
  logBuffer :: "log_entry list"
  flushTimeout :: "nat option"
  timers :: "(nat \<times> nat) list"
  timerCount :: nat
  intervals :: "(nat \<times> nat) list"
  fetches :: "log_entry list list"
  console_out :: "(string \<times> jsval list) list"

text \<open>
  The options of the plugin that reach the injected module: \<^verbatim>\<open>levels\<close> and
  \<^verbatim>\<open>silentOnError\<close> (exported as \<^verbatim>\<open>SILENT_ON_ERROR\<close>).
\<close>

record client_config =
  levels :: "string list"
  silentOnError :: bool

definition FLUSH_DELAY :: nat where
  "FLUSH_DELAY = 100"

definition MAX_BUFFER_SIZE :: nat where
  "MAX_BUFFER_SIZE = 50"

text \<open>The period in \<^verbatim>\<open>setInterval(flushLogs, 10000)\<close>, in the unit of \<^const>\<open>FLUSH_DELAY\<close>.\<close>

definition FLUSH_INTERVAL :: nat where
  "FLUSH_INTERVAL = 10000"

text \<open>
  A timer handle is a positive number, so a handle stored in \<^verbatim>\<open>flushTimeout\<close> is truthy
  and \<^verbatim>\<open>!flushTimeout\<close> holds exactly when the variable is \<^verbatim>\<open>null\<close>.
\<close>

definition setTimeout :: "nat \<Rightarrow> client_state \<Rightarrow> nat \<times> client_state" where
  "setTimeout delay st =
     (let h = Suc (timerCount st)
      in (h, st\<lparr>timerCount := h, timers := timers st @ [(h, delay)]\<rparr>))"

definition clearTimeout :: "nat \<Rightarrow> client_state \<Rightarrow> client_state" where
  "clearTimeout h st = st\<lparr>timers := filter (\<lambda>(h', d). h' \<noteq> h) (timers st)\<rparr>"

definition setInterval :: "nat \<Rightarrow> client_state \<Rightarrow> client_state" where
  "setInterval period st =
     (let h = Suc (timerCount st)
      in st\<lparr>timerCount := h, intervals := intervals st @ [(h, period)]\<rparr>)"

text \<open>
  \<^verbatim>\<open>sendLogs\<close> up to its \<^verbatim>\<open>await\<close>: the batch is handed to \<^verbatim>\<open>fetch\<close>. The caller
  does not wait for the rest, which \<open>sendLogs_settled\<close> below models.
\<close>

definition sendLogs :: "log_entry list \<Rightarrow> client_state \<Rightarrow> client_state" where
  "sendLogs logs st = st\<lparr>fetches := fetches st @ [logs]\<rparr>"

definition flushLogs :: "client_state \<Rightarrow> client_state" where
  "flushLogs st =
     (if length (logBuffer st) = 0 then st
      else
        let logsToSend = logBuffer st;
            st1 = st\<lparr>logBuffer := []\<rparr>;
            st2 = sendLogs logsToSend st1
        in (case flushTimeout st2 of
              Some h \<Rightarrow> (clearTimeout h st2)\<lparr>flushTimeout := None\<rparr>
            | None \<Rightarrow> st2))"

definition addToBuffer :: "log_entry \<Rightarrow> client_state \<Rightarrow> client_state" where
  "addToBuffer entry st =
     (let st1 = st\<lparr>logBuffer := logBuffer st @ [entry]\<rparr>
      in if length (logBuffer st1) \<ge> MAX_BUFFER_SIZE then flushLogs st1
         else if flushTimeout st1 = None then
           (let (h, st2) = setTimeout FLUSH_DELAY st1 in st2\<lparr>flushTimeout := Some h\<rparr>)
         else st1)"

text \<open>
  What a call that runs on the application's stack does: it returns, or it throws into
  the caller. The state is the one reached in either case.
\<close>

datatype 's outcome = Completed 's | Thrown js_error 's

text \<open>
  The function assigned to \<^verbatim>\<open>console.<level>\<close> for each level in \<^verbatim>\<open>levels\<close>: the
  original method, then \<^verbatim>\<open>createLogEntry\<close>, then \<^verbatim>\<open>addToBuffer\<close>, with no
  \<^verbatim>\<open>try\<close> around them.
\<close>

definition patched_console :: "client_env \<Rightarrow> string \<Rightarrow> jsval list \<Rightarrow> client_state \<Rightarrow> client_state outcome" where
  "patched_console env lvl args st =
     (let st1 = st\<lparr>console_out := console_out st @ [(lvl, args)]\<rparr>
      in case createLogEntry env (currentModuleContext st1) lvl args of
           Inl e \<Rightarrow> Thrown e st1
         | Inr entry \<Rightarrow> Completed (addToBuffer entry st1))"

text \<open>\<^verbatim>\<open>console.<level>(...args)\<close> as the application calls it once the module is loaded.\<close>

definition console_call :: "client_config \<Rightarrow> client_env \<Rightarrow> string \<Rightarrow> jsval list \<Rightarrow> client_state \<Rightarrow> client_state outcome" where
  "console_call cfg env lvl args st =
     (if lvl \<in> set (levels cfg) then patched_console env lvl args st
      else Completed (st\<lparr>console_out := console_out st @ [(lvl, args)]\<rparr>))"

text \<open>The state once the module is loaded: nothing queued, the interval timer running.\<close>

definition module_loaded :: client_state where
  "module_loaded =
     setInterval FLUSH_INTERVAL
       \<lparr> currentModuleContext = ''unknown'', logBuffer = [], flushTimeout = None, timers = [],
         timerCount = 0, intervals = [], fetches = [], console_out = [] \<rparr>"

text \<open>
  A pending timer set by \<^verbatim>\<open>setTimeout(flushLogs, ...)\<close> fires: it is no longer
  pending, and \<^verbatim>\<open>flushLogs\<close> runs. The interval timer fires: \<^verbatim>\<open>flushLogs\<close> runs.
\<close>

definition timeout_fires :: "nat \<Rightarrow> client_state \<Rightarrow> client_state" where
  "timeout_fires h st =
     (if h \<in> fst ` set (timers st)
      then flushLogs (st\<lparr>timers := filter (\<lambda>(h', d). h' \<noteq> h) (timers st)\<rparr>)
      else st)"

definition interval_fires :: "client_state \<Rightarrow> client_state" where
  "interval_fires st = flushLogs st"

text \<open>
  The rest of \<^verbatim>\<open>sendLogs(logs)\<close>, run when the promise of \<^verbatim>\<open>fetch\<close> settles. The
  promise resolves with a response of any status, or rejects with an error of some
  message; only a rejection reaches the \<^verbatim>\<open>catch\<close>. The warning goes through
  \<^verbatim>\<open>console.warn\<close> as it is at that moment.
\<close>

datatype fetch_result = Resolved nat | Rejected string

definition sendLogs_settled :: "client_config \<Rightarrow> client_env \<Rightarrow> log_entry list \<Rightarrow> fetch_result \<Rightarrow> client_state \<Rightarrow> client_state outcome" where
  "sendLogs_settled cfg env logs r st =
     (case r of
        Resolved code \<Rightarrow> Completed st
      | Rejected msg \<Rightarrow>
          if \<not> silentOnError cfg \<and> has_console_warn env
          then console_call cfg env ''warn'' [String ''[Console Forward] Failed to send logs:'', String msg] st
          else Completed st)"

section \<open>The ingestion endpoint and the per-module loggers\<close>

subsection \<open>JavaScript's handling of parsed JSON values\<close>

text \<open>
  Two functions of the runtime are parameters of the model, since nothing the plugin does
  depends on what they compute: whether \<^verbatim>\<open>ToNumber\<close> of a string is above zero, and the
  text \<^verbatim>\<open>JSON.stringify(v, null, 2)\<close> of a parsed value.
\<close>

record js_runtime =
  StringToNumber_positive :: "string \<Rightarrow> bool"
  JSON_stringify_pretty :: "json \<Rightarrow> string"

text \<open>Truthiness; \<open>None\<close> is \<^verbatim>\<open>undefined\<close>.\<close>

fun truthy :: "json option \<Rightarrow> bool" where
  "truthy None = False"
| "truthy (Some JNull) = False"
| "truthy (Some (JBool b)) = b"
| "truthy (Some (JNum n)) = (n \<noteq> 0)"
| "truthy (Some (JStr s)) = (s \<noteq> [])"
| "truthy (Some (JArr xs)) = True"
| "truthy (Some (JObj kvs)) = True"

text \<open>
  \<^verbatim>\<open>ToString\<close> of a parsed value, \<open>None\<close> when it throws a TypeError. A parsed object
  has no callable property of its own: it converts through \<^verbatim>\<open>Object.prototype.toString\<close>
  unless an own property \<^verbatim>\<open>toString\<close> hides that method, and then the conversion
  throws. An array converts through \<^verbatim>\<open>join(",")\<close>, where \<^verbatim>\<open>null\<close> gives the empty
  string.
\<close>

fun to_str :: "json \<Rightarrow> string option" where
  "to_str JNull = Some ''null''"
| "to_str (JBool b) = Some (if b then ''true'' else ''false'')"
| "to_str (JNum n) = Some (int_to_string n)"
| "to_str (JStr s) = Some s"
| "to_str (JArr xs) =
     map_option (join '','') (those (map (\<lambda>x. if x = JNull then Some [] else to_str x) xs))"
| "to_str (JObj kvs) =
     (if ''toString'' \<in> fst ` set kvs then None else Some ''[object Object]'')"

text \<open>\<^verbatim>\<open>v.join(sep)\<close>: a TypeError unless \<open>v\<close> is an array.\<close>

fun array_join :: "string \<Rightarrow> json \<Rightarrow> string option" where
  "array_join sep (JArr xs) =
     map_option (join sep) (those (map (\<lambda>x. if x = JNull then Some [] else to_str x) xs))"
| "array_join sep v = None"

text \<open>A value in a template literal.\<close>

fun template :: "json option \<Rightarrow> string option" where
  "template None = Some ''undefined''"
| "template (Some v) = to_str v"

text \<open>
  \<^verbatim>\<open>x > 0\<close>, \<open>None\<close> when the conversion of \<open>x\<close> to a number throws. \<^verbatim>\<open>undefined\<close>
  and objects convert to \<^verbatim>\<open>NaN\<close>, \<^verbatim>\<open>null\<close> to 0, \<^verbatim>\<open>true\<close> to 1, arrays through
  their string.
\<close>

fun gt_zero :: "js_runtime \<Rightarrow> json option \<Rightarrow> bool option" where
  "gt_zero rt None = Some False"
| "gt_zero rt (Some JNull) = Some False"
| "gt_zero rt (Some (JBool b)) = Some b"
| "gt_zero rt (Some (JNum n)) = Some (n > 0)"
| "gt_zero rt (Some (JStr s)) = Some (StringToNumber_positive rt s)"
| "gt_zero rt (Some (JArr xs)) = map_option (StringToNumber_positive rt) (to_str (JArr xs))"
| "gt_zero rt (Some (JObj kvs)) = map_option (\<lambda>s. False) (to_str (JObj kvs))"

text \<open>\<^verbatim>\<open>v.length > 0\<close> for a truthy \<open>v\<close>.\<close>

fun length_gt_zero :: "js_runtime \<Rightarrow> json \<Rightarrow> bool option" where
  "length_gt_zero rt (JArr xs) = Some (length xs > 0)"
| "length_gt_zero rt (JStr s) = Some (length s > 0)"
| "length_gt_zero rt (JObj kvs) = gt_zero rt (map_of kvs ''length'')"
| "length_gt_zero rt v = Some False"

text \<open>\<^verbatim>\<open>v && v.length > 0\<close>\<close>

definition nonempty :: "js_runtime \<Rightarrow> json option \<Rightarrow> bool option" where
  "nonempty rt v = (if truthy v then length_gt_zero rt (the v) else Some False)"

text \<open>
  A property of a record of the batch, for the names the handler reads
  (\<^verbatim>\<open>module\<close>, \<^verbatim>\<open>url\<close>, \<^verbatim>\<open>level\<close>, \<^verbatim>\<open>message\<close>, \<^verbatim>\<open>stacks\<close>, \<^verbatim>\<open>extra\<close>,
  and \<^verbatim>\<open>logs\<close> of the envelope): only an object has them. Reading a property of
  \<^verbatim>\<open>null\<close> throws, which the callers test first.
\<close>

fun field :: "json \<Rightarrow> string \<Rightarrow> json option" where
  "field (JObj kvs) k = map_of kvs k"
| "field v k = None"

text \<open>\<^verbatim>\<open>s.split("\n")\<close>\<close>

fun split_lines :: "string \<Rightarrow> string list" where
  "split_lines [] = [[]]"
| "split_lines (c # cs) =
     (if c = CHR 0x0A then [] # split_lines cs
      else (case split_lines cs of l # ls \<Rightarrow> (c # l) # ls | [] \<Rightarrow> [[c]]))"

text \<open>\<^verbatim>\<open>s.split("\n").map((line) => `    ${line}`).join("\n")\<close>\<close>

definition indent_lines :: "string \<Rightarrow> string" where
  "indent_lines s = join [CHR 0x0A] (map (\<lambda>line. ''    '' @ line) (split_lines s))"

text \<open>\<^verbatim>\<open>stack.split\<close> is a function only when \<open>stack\<close> is a string.\<close>

fun indent_stack :: "json \<Rightarrow> string option" where
  "indent_stack (JStr s) = Some (indent_lines s)"
| "indent_stack v = None"

text \<open>
  \<^verbatim>\<open>log.stacks.map((stack) => ...).join("\n")\<close>: a TypeError unless \<^verbatim>\<open>log.stacks\<close> is
  an array, and all of its elements strings.
\<close>

fun render_stacks :: "json \<Rightarrow> string option" where
  "render_stacks (JArr xs) = map_option (join [CHR 0x0A]) (those (map indent_stack xs))"
| "render_stacks v = None"

subsection \<open>The logger cache\<close>

text \<open>
  A logger made by \<^verbatim>\<open>createLogger\<close>: its prefix, and the number of loggers made before
  it, which tells the instances apart.
\<close>

record logger =
  serial :: nat
  prefix :: string

text \<open>
  A call of a logger: \<^verbatim>\<open>error\<close> with the message and the message of the attached
  \<^verbatim>\<open>Error\<close> (\<open>None\<close> when \<^verbatim>\<open>null\<close> is attached), \<^verbatim>\<open>warn\<close> and \<^verbatim>\<open>info\<close> with the
  message.
\<close>

datatype logger_call = LoggerError string "string option" | LoggerWarn string | LoggerInfo string

text \<open>
  The state of the server side: the \<^verbatim>\<open>Map\<close> \<^verbatim>\<open>loggerCache\<close> in insertion order, the
  calls made on the module loggers, and the lines the server's own logger got from the
  \<^verbatim>\<open>catch\<close>.
\<close>

record server_state =
  loggerCache :: "(json \<times> logger) list"
  terminal :: "(logger \<times> logger_call) list"
  server_errors :: "string list"

text \<open>
  Whether a key of the \<^verbatim>\<open>Map\<close> is the value looked up. Strings, numbers and booleans
  are compared by value; an array or object of a parsed body is a new reference, equal to
  no key stored before.
\<close>

fun same_key :: "json \<Rightarrow> json \<Rightarrow> bool" where
  "same_key (JStr a) (JStr b) = (a = b)"
| "same_key (JNum a) (JNum b) = (a = b)"
| "same_key (JBool a) (JBool b) = (a = b)"
| "same_key JNull JNull = True"
| "same_key k v = False"

fun cache_get :: "(json \<times> logger) list \<Rightarrow> json \<Rightarrow> logger option" where
  "cache_get [] v = None"
| "cache_get ((k, lg) # rest) v = (if same_key k v then Some lg else cache_get rest v)"

text \<open>
  \<^verbatim>\<open>getOrCreateLogger\<close>: the cached logger, or a new one stored under the name. The
  prefix is a template literal of the name, whose conversion can throw before anything is
  stored.
\<close>

definition getOrCreateLogger :: "json \<Rightarrow> server_state \<Rightarrow> (logger \<times> server_state) option" where
  "getOrCreateLogger moduleName st =
     (case cache_get (loggerCache st) moduleName of
        Some lg \<Rightarrow> Some (lg, st)
      | None \<Rightarrow>
          (case to_str moduleName of
             None \<Rightarrow> None
           | Some name \<Rightarrow>
               let lg = \<lparr> serial = length (loggerCache st), prefix = ''['' @ name @ '']'' \<rparr>
               in Some (lg, st\<lparr>loggerCache := loggerCache st @ [(moduleName, lg)]\<rparr>)))"

text \<open>\<^verbatim>\<open>log.module || "unknown"\<close>\<close>

definition module_or_unknown :: "json \<Rightarrow> json" where
  "module_or_unknown log =
     (if truthy (field log ''module'') then the (field log ''module'') else JStr ''unknown'')"

subsection \<open>One record of the batch\<close>

text \<open>
  The text passed to the logger: the base line with the location, then the indented
  stacks, then the extra data. \<open>None\<close> is a TypeError.
\<close>

definition render_message :: "js_runtime \<Rightarrow> json \<Rightarrow> string option" where
  "render_message rt log =
     do {
       location \<leftarrow> (if truthy (field log ''url'')
                    then map_option (\<lambda>u. '' ('' @ u @ '')'') (template (field log ''url''))
                    else Some []);
       lvl \<leftarrow> template (field log ''level'');
       msg \<leftarrow> template (field log ''message'');
       has_stacks \<leftarrow> nonempty rt (field log ''stacks'');
       stack_text \<leftarrow> (if has_stacks
                      then map_option (\<lambda>t. CHR 0x0A # t) (render_stacks (the (field log ''stacks'')))
                      else Some []);
       has_extra \<leftarrow> nonempty rt (field log ''extra'');
       Some (''['' @ lvl @ ''] '' @ msg @ location @ stack_text
             @ (if has_extra
                then CHR 0x0A # ''    Extra data: ''
                     @ indent_lines (JSON_stringify_pretty rt (the (field log ''extra'')))
                else []))
     }"

text \<open>The \<^verbatim>\<open>switch (log.level)\<close>.\<close>

definition dispatch :: "js_runtime \<Rightarrow> json \<Rightarrow> string \<Rightarrow> logger_call option" where
  "dispatch rt log msg =
     (if field log ''level'' = Some (JStr ''error'') then
        do {
          has_stacks \<leftarrow> nonempty rt (field log ''stacks'');
          err \<leftarrow> (if has_stacks
                  then map_option Some (array_join [CHR 0x0A] (the (field log ''stacks'')))
                  else Some None);
          Some (LoggerError msg err)
        }
      else if field log ''level'' = Some (JStr ''warn'') then Some (LoggerWarn msg)
      else if field log ''level'' = Some (JStr ''info'') then Some (LoggerInfo msg)
      else if field log ''level'' = Some (JStr ''debug'') then Some (LoggerInfo msg)
      else Some (LoggerInfo msg))"

text \<open>
  The body of \<^verbatim>\<open>logs.forEach((log) => ...)\<close>. A throw leaves the state as it is at
  that point: the logger cache may already hold a new logger.
\<close>

definition process_log :: "js_runtime \<Rightarrow> json \<Rightarrow> server_state \<Rightarrow> server_state outcome" where
  "process_log rt log st =
     (if log = JNull then Thrown TypeError st
      else
        (case getOrCreateLogger (module_or_unknown log) st of
           None \<Rightarrow> Thrown TypeError st
         | Some (lg, st1) \<Rightarrow>
             (case render_message rt log of
                None \<Rightarrow> Thrown TypeError st1
              | Some msg \<Rightarrow>
                  (case dispatch rt log msg of
                     None \<Rightarrow> Thrown TypeError st1
                   | Some call \<Rightarrow> Completed (st1\<lparr>terminal := terminal st1 @ [(lg, call)]\<rparr>)))))"

fun forEach_log :: "js_runtime \<Rightarrow> json list \<Rightarrow> server_state \<Rightarrow> server_state outcome" where
  "forEach_log rt [] st = Completed st"
| "forEach_log rt (log # logs) st =
     (case process_log rt log st of
        Thrown e st' \<Rightarrow> Thrown e st'
      | Completed st' \<Rightarrow> forEach_log rt logs st')"

subsection \<open>The request handler\<close>

record response =
  status :: nat
  content_type :: string
  body :: string

definition success_response :: response where
  \<open>success_response =
     \<lparr> status = 200, content_type = ''application/json'', body = ''{"success":true}'' \<rparr>\<close>

definition invalid_json_response :: response where
  \<open>invalid_json_response =
     \<lparr> status = 400, content_type = ''application/json'', body = ''{"error":"Invalid JSON"}'' \<rparr>\<close>

text \<open>The \<^verbatim>\<open>catch\<close> of the handler.\<close>

definition reject :: "server_state \<Rightarrow> response \<times> server_state" where
  "reject st =
     (invalid_json_response,
      st\<lparr>server_errors := server_errors st @ [''Error processing client logs:'']\<rparr>)"

text \<open>
  The handler of the request's \<^verbatim>\<open>end\<close> event, given what \<^verbatim>\<open>JSON.parse(body)\<close> does:
  \<open>None\<close> when it throws a SyntaxError, the parsed value otherwise. Destructuring
  \<^verbatim>\<open>null\<close> throws, and \<^verbatim>\<open>logs.forEach\<close> is a function only when \<^verbatim>\<open>logs\<close> is an array.
\<close>

definition request_end :: "js_runtime \<Rightarrow> json option \<Rightarrow> server_state \<Rightarrow> response \<times> server_state" where
  "request_end rt parsed st =
     (case parsed of
        None \<Rightarrow> reject st
      | Some JNull \<Rightarrow> reject st
      | Some v \<Rightarrow>
          (case field v ''logs'' of
             Some (JArr logs) \<Rightarrow>
               (case forEach_log rt logs st of
                  Completed st' \<Rightarrow> (success_response, st')
                | Thrown e st' \<Rightarrow> reject st')
           | _ \<Rightarrow> reject st))"

text \<open>The middleware: only a POST is handled, any other method goes to \<^verbatim>\<open>next()\<close>.\<close>

definition middleware :: "js_runtime \<Rightarrow> string \<Rightarrow> json option \<Rightarrow> server_state \<Rightarrow> response option \<times> server_state" where
  "middleware rt method parsed st =
     (if method \<noteq> ''POST'' then (None, st)
      else let (r, st') = request_end rt parsed st in (Some r, st'))"

section \<open>Bootstrap injection\<close>

text \<open>
  The options the two transform hooks read. \<^verbatim>\<open>micromatch.isMatch\<close> is a library
  function and a parameter of the hooks.
\<close>

record plugin_options =
  enabled :: bool
  injectPatterns :: "string list"
  excludePatterns :: "string list"
  moduleExtractor :: "string \<Rightarrow> string"

definition forwardModuleId :: string where
  "forwardModuleId = ''virtual:console-forward''"

definition quote :: string where
  "quote = [CHR 0x27]"

definition newline :: string where
  "newline = [CHR 0x0A]"

text \<open>The three lines both hooks inject, each ended by a line feed.\<close>

definition bootstrap_lines :: "string \<Rightarrow> string" where
  "bootstrap_lines moduleContext =
     ''import { setModuleContext } from '' @ quote @ forwardModuleId @ quote @ '';'' @ newline
     @ ''setModuleContext('' @ quote @ moduleContext @ quote @ '');'' @ newline
     @ ''import '' @ quote @ forwardModuleId @ quote @ '';'' @ newline"

definition scriptTag :: "string \<Rightarrow> string" where
  \<open>scriptTag moduleContext =
     ''<script type="module">'' @ newline @ bootstrap_lines moduleContext @ ''</script>''\<close>

text \<open>
  \<^verbatim>\<open>s.replace(pattern, replacement)\<close> with a string pattern: the first occurrence is
  replaced, and in the replacement \<^verbatim>\<open>$$\<close> stands for a dollar sign, \<^verbatim>\<open>$&\<close> for the
  match, \<^verbatim>\<open>$`\<close> for the text before it and \<^verbatim>\<open>$'\<close> for the text after it.
\<close>

fun split_at_first :: "string \<Rightarrow> string \<Rightarrow> (string \<times> string) option" where
  "split_at_first p [] = (if p = [] then Some ([], []) else None)"
| "split_at_first p (c # cs) =
     (if startsWith (c # cs) p then Some ([], drop (length p) (c # cs))
      else map_option (\<lambda>(pre, post). (c # pre, post)) (split_at_first p cs))"

fun substitution :: "string \<Rightarrow> string \<Rightarrow> string \<Rightarrow> string \<Rightarrow> string" where
  "substitution matched pre post (c # d # rest) =
     (if c = CHR ''$'' \<and> d = CHR ''$'' then CHR ''$'' # substitution matched pre post rest
      else if c = CHR ''$'' \<and> d = CHR ''&'' then matched @ substitution matched pre post rest
      else if c = CHR ''$'' \<and> d = CHR 0x60 then pre @ substitution matched pre post rest
      else if c = CHR ''$'' \<and> d = CHR 0x27 then post @ substitution matched pre post rest
      else c # substitution matched pre post (d # rest))"
| "substitution matched pre post rest = rest"

definition replace :: "string \<Rightarrow> string \<Rightarrow> string \<Rightarrow> string" where
  "replace pattern replacement s =
     (case split_at_first pattern s of
        None \<Rightarrow> s
      | Some (pre, post) \<Rightarrow> pre @ substitution pattern pre post replacement @ post)"

text \<open>
  The \<^verbatim>\<open>transform\<close> hook. \<open>None\<close> is the return of \<^verbatim>\<open>undefined\<close>, on which the build
  tool keeps the code as it is.
\<close>

definition transform :: "(string \<Rightarrow> string list \<Rightarrow> bool) \<Rightarrow> plugin_options \<Rightarrow> string \<Rightarrow> string \<Rightarrow> string option" where
  "transform isMatch opts code ident =
     (if \<not> enabled opts \<or> length (injectPatterns opts) = 0 then None
      else if endsWith ident ''.html'' then None
      else if length (excludePatterns opts) > 0 \<and> isMatch ident (excludePatterns opts) then None
      else if isMatch ident (injectPatterns opts) then
        (if str_includes code forwardModuleId then None
         else Some (bootstrap_lines (moduleExtractor opts ident) @ code))
      else None)"

text \<open>The \<^verbatim>\<open>transformIndexHtml\<close> hook, on the HTML text and \<^verbatim>\<open>ctx.filename\<close>.\<close>

definition transformIndexHtml :: "(string \<Rightarrow> string list \<Rightarrow> bool) \<Rightarrow> plugin_options \<Rightarrow> string \<Rightarrow> string \<Rightarrow> string option" where
  "transformIndexHtml isMatch opts html ident =
     (if \<not> enabled opts \<or> length (injectPatterns opts) = 0 then None
      else if length (excludePatterns opts) > 0 \<and> isMatch ident (excludePatterns opts) then None
      else if isMatch ident (injectPatterns opts) then
        (if str_includes html forwardModuleId then None
         else
           let tag = scriptTag (moduleExtractor opts ident)
           in if str_includes html ''<head>''
                then Some (replace ''<head>'' (''<head>'' @ newline @ tag) html)
              else if str_includes html ''<body>''
                then Some (replace ''<body>'' (''<body>'' @ newline @ tag) html)
              else if str_includes html ''<html>''
                then Some (replace ''<html>'' (''<html>'' @ newline @ tag) html)
              else Some (tag @ newline @ html))
      else None)"

text \<open>The artifact after a hook has run on it.\<close>

definition transformed :: "string \<Rightarrow> string option \<Rightarrow> string" where
  "transformed artifact r = (case r of None \<Rightarrow> artifact | Some out \<Rightarrow> out)"

section \<open>Notions in which the properties are stated\<close>

text \<open>
  The arguments that take the fourth branch of \<^verbatim>\<open>createLogEntry\<close>: objects that are
  neither an \<^verbatim>\<open>Error\<close> nor carry a string \<^verbatim>\<open>stack\<close>. They are the extra arguments
  of a call.
\<close>

fun is_extra_arg :: "jsval \<Rightarrow> bool" where
  "is_extra_arg (Object ob) = (\<not> (instanceof_Error ob \<or> stack ob \<noteq> None))"
| "is_extra_arg v = False"

text \<open>
  In the words of the specification: the stack text of an error-like value, with a leading
  copy of the value's string form stripped from its top and leading white space then
  trimmed; and the frames an argument contributes, which are the non-empty such texts of
  the error-like arguments.
\<close>

definition spec_stack_text :: "string \<Rightarrow> string option \<Rightarrow> string" where
  "spec_stack_text stringForm stackField =
     (case stackField of
        None \<Rightarrow> []
      | Some st \<Rightarrow>
          if startsWith st stringForm then trimStart (drop (length stringForm) st) else st)"

fun spec_frames :: "jsval \<Rightarrow> string list" where
  "spec_frames (Object ob) =
     (if instanceof_Error ob \<or> stack ob \<noteq> None then
        (case toString ob of
           None \<Rightarrow> []
         | Some s \<Rightarrow> filter (\<lambda>frame. frame \<noteq> []) [spec_stack_text s (stack ob)])
      else [])"
| "spec_frames v = []"

text \<open>
  The states of the transport between two calls: the queue is below the threshold, and a
  timer is pending exactly when the queue is not empty; it is the one timer
  \<^verbatim>\<open>flushTimeout\<close> refers to.
\<close>

definition transport_inv :: "client_state \<Rightarrow> bool" where
  "transport_inv st =
     (length (logBuffer st) < MAX_BUFFER_SIZE \<and>
      (case flushTimeout st of
         None \<Rightarrow> logBuffer st = [] \<and> timers st = []
       | Some h \<Rightarrow> logBuffer st \<noteq> [] \<and> timers st = [(h, FLUSH_DELAY)]))"

text \<open>
  The server before its first request, and the logger caches it can build: the loggers
  are numbered in the order of their creation, and each has the prefix made from its key.
\<close>

definition server_start :: server_state where
  "server_start = \<lparr> loggerCache = [], terminal = [], server_errors = [] \<rparr>"

text \<open>
  What the server does between two records: it processes another record of a batch,
  whether that one completes or throws, or it handles a whole request.
\<close>

datatype server_step = Record json | Request "json option"

fun run_step :: "js_runtime \<Rightarrow> server_step \<Rightarrow> server_state \<Rightarrow> server_state" where
  "run_step rt (Record log) st =
     (case process_log rt log st of Completed st' \<Rightarrow> st' | Thrown e st' \<Rightarrow> st')"
| "run_step rt (Request parsed) st = snd (request_end rt parsed st)"

definition run_steps :: "js_runtime \<Rightarrow> server_step list \<Rightarrow> server_state \<Rightarrow> server_state" where
  "run_steps rt steps st = fold (run_step rt) steps st"

fun cache_wf_from :: "nat \<Rightarrow> (json \<times> logger) list \<Rightarrow> bool" where
  "cache_wf_from n [] = True"
| "cache_wf_from n ((k, lg) # rest) =
     (case to_str k of
        None \<Rightarrow> False
      | Some name \<Rightarrow>
          serial lg = n \<and> prefix lg = ''['' @ name @ '']'' \<and> cache_wf_from (Suc n) rest)"

definition cache_wf :: "(json \<times> logger) list \<Rightarrow> bool" where
  "cache_wf cache = cache_wf_from 0 cache"

section \<open>Capture and the host application\<close>

text \<open>
  C1. The claim: a logging call through a wrapped console method never throws into the
  application, whatever its arguments, \<^verbatim>\<open>null\<close> included. The code does throw on
  \<^verbatim>\<open>console.log(null)\<close>: the original method has run, then \<^verbatim>\<open>typeof arg.stack\<close>
  reads a property of \<^verbatim>\<open>null\<close>, and the TypeError leaves the wrapper with nothing
  queued.
\<close>

theorem console_log_null_throws:
  "console_call \<lparr>levels = [''log'', ''warn'', ''error'', ''info'', ''debug''], silentOnError = True\<rparr>
     env ''log'' [Null] st
   = Thrown TypeError (st\<lparr>console_out := console_out st @ [(''log'', [Null])]\<rparr>)"
  by (simp add: console_call_def patched_console_def createLogEntry_def)

text \<open>
  The other arguments are safe: a call without a \<^verbatim>\<open>null\<close> argument, and in which no
  object throws from its own string conversions, returns.
\<close>

lemma format_arg_returns:
  assumes "a \<noteq> Null" and "\<And>ob. a = Object ob \<Longrightarrow> toString ob \<noteq> None \<and> String_of ob \<noteq> None"
  shows "\<exists>res. format_arg a sts exs = Inr res"
  using assms by (cases a) (auto split: option.splits simp: Let_def)

lemma map_args_returns:
  "(\<And>a. a \<in> set args \<Longrightarrow> a \<noteq> Null) \<Longrightarrow>
   (\<And>ob. Object ob \<in> set args \<Longrightarrow> toString ob \<noteq> None \<and> String_of ob \<noteq> None) \<Longrightarrow>
   \<exists>res. map_args args sts exs = Inr res"
proof (induction args arbitrary: sts exs)
  case Nil
  then show ?case by simp
next
  case (Cons a as)
  have "\<exists>res. format_arg a sts exs = Inr res"
    using Cons.prems by (intro format_arg_returns) auto
  then obtain seg sts1 exs1 where f: "format_arg a sts exs = Inr (seg, sts1, exs1)"
    by (metis prod_cases3)
  have "\<exists>res. map_args as sts1 exs1 = Inr res"
    using Cons.prems by (intro Cons.IH) auto
  then obtain segs sts2 exs2 where "map_args as sts1 exs1 = Inr (segs, sts2, exs2)"
    by (metis prod_cases3)
  with f show ?case by simp
qed

lemma console_call_completes:
  assumes "\<And>a. a \<in> set args \<Longrightarrow> a \<noteq> Null"
    and "\<And>ob. Object ob \<in> set args \<Longrightarrow> toString ob \<noteq> None \<and> String_of ob \<noteq> None"
  shows "\<exists>st'. console_call cfg env lvl args st = Completed st'"
proof -
  from map_args_returns[OF assms, of args "[]" "[]"] obtain segs sts exs where
    "map_args args [] [] = Inr (segs, sts, exs)" by (metis prod_cases3)
  then show ?thesis
    by (simp add: console_call_def patched_console_def createLogEntry_def Let_def)
qed

section \<open>Extra arguments and their placeholders\<close>

text \<open>
  What one argument does to the array of extra data: it appends at most one value, one
  exactly when it is an extra argument, and the segment and the stacks it produces depend
  on the array only through its length.
\<close>

lemma format_arg_extra:
  assumes "format_arg a sts exs = Inr (seg, sts', exs')"
  shows "\<exists>ys. exs' = exs @ ys \<and> length ys = (if is_extra_arg a then 1 else 0)
          \<and> (\<forall>exs2. length exs2 = length exs \<longrightarrow> format_arg a sts exs2 = Inr (seg, sts', exs2 @ ys))"
  using assms
  by (cases a) (auto split: if_splits option.splits simp: Let_def)

lemma map_args_extra:
  "map_args args sts exs = Inr (segs, sts', exs') \<Longrightarrow>
   \<exists>ys. exs' = exs @ ys \<and> length ys = length (filter is_extra_arg args) \<and> length segs = length args
      \<and> (\<forall>exs2. length exs2 = length exs \<longrightarrow> map_args args sts exs2 = Inr (segs, sts', exs2 @ ys))"
proof (induction args arbitrary: sts exs segs sts' exs')
  case Nil
  then show ?case by auto
next
  case (Cons a as)
  from Cons.prems obtain seg sts1 exs1 segs1 where
    fa: "format_arg a sts exs = Inr (seg, sts1, exs1)" and
    ma: "map_args as sts1 exs1 = Inr (segs1, sts', exs')" and
    sg: "segs = seg # segs1"
    by (auto split: sum.splits prod.splits)
  from format_arg_extra[OF fa] obtain ys1 where
    y1: "exs1 = exs @ ys1" "length ys1 = (if is_extra_arg a then 1 else 0)"
    "\<forall>exs2. length exs2 = length exs \<longrightarrow> format_arg a sts exs2 = Inr (seg, sts1, exs2 @ ys1)"
    by blast
  from Cons.IH[OF ma] obtain ys2 where
    y2: "exs' = exs1 @ ys2" "length ys2 = length (filter is_extra_arg as)" "length segs1 = length as"
    "\<forall>exs2. length exs2 = length exs1 \<longrightarrow> map_args as sts1 exs2 = Inr (segs1, sts', exs2 @ ys2)"
    by blast
  have "\<forall>exs2. length exs2 = length exs \<longrightarrow> map_args (a # as) sts exs2 = Inr (segs, sts', exs2 @ (ys1 @ ys2))"
  proof (intro allI impI)
    fix exs2 :: "json list" assume l: "length exs2 = length exs"
    then have f: "format_arg a sts exs2 = Inr (seg, sts1, exs2 @ ys1)" using y1(3) by blast
    have "length (exs2 @ ys1) = length exs1" using l y1(1) by simp
    then have "map_args as sts1 (exs2 @ ys1) = Inr (segs1, sts', (exs2 @ ys1) @ ys2)" using y2(4) by blast
    with f sg show "map_args (a # as) sts exs2 = Inr (segs, sts', exs2 @ (ys1 @ ys2))" by simp
  qed
  moreover have "exs' = exs @ (ys1 @ ys2)" using y1(1) y2(1) by simp
  moreover have "length (ys1 @ ys2) = length (filter is_extra_arg (a # as))" using y1(2) y2(2) by simp
  moreover have "length segs = length (a # as)" using sg y2(3) by simp
  ultimately show ?case by blast
qed

text \<open>
  The extra argument at position \<open>i\<close>: its segment, its slot, and what another extra
  argument in its place would change.
\<close>

lemma map_args_position:
  "map_args args sts exs = Inr (segs, sts', exs') \<Longrightarrow> i < length args \<Longrightarrow>
   args ! i = Object ob \<Longrightarrow> is_extra_arg (Object ob) \<Longrightarrow> JSON_roundtrip ob = Some v \<Longrightarrow>
   n = length exs + length (filter is_extra_arg (take (Suc i) args)) \<Longrightarrow>
   segs ! i = placeholder n \<and> 0 < n \<and> n \<le> length exs' \<and> exs' ! (n - 1) = v
   \<and> (\<forall>ob' v'. is_extra_arg (Object ob') \<and> JSON_roundtrip ob' = Some v' \<longrightarrow>
         map_args (args[i := Object ob']) sts exs = Inr (segs, sts', exs'[n - 1 := v']))"
proof (induction args arbitrary: i sts exs segs n)
  case Nil
  then show ?case by simp
next
  case (Cons a as)
  from Cons.prems(1) obtain seg sts1 exs1 segs1 where
    fa: "format_arg a sts exs = Inr (seg, sts1, exs1)" and
    ma: "map_args as sts1 exs1 = Inr (segs1, sts', exs')" and
    sg: "segs = seg # segs1"
    by (auto split: sum.splits prod.splits)
  show ?case
  proof (cases i)
    case 0
    with Cons.prems have a: "a = Object ob" and n: "n = length exs + 1" by simp_all
    from fa a Cons.prems(4,5) have f: "seg = placeholder (length exs + 1)" "sts1 = sts" "exs1 = exs @ [v]"
      by auto
    from map_args_extra[OF ma] obtain ys where
      ys: "exs' = exs1 @ ys"
      "\<forall>exs2. length exs2 = length exs1 \<longrightarrow> map_args as sts1 exs2 = Inr (segs1, sts', exs2 @ ys)"
      by blast
    have r: "map_args (Object ob' # as) sts exs = Inr (segs, sts', exs'[n - 1 := v'])"
      if "is_extra_arg (Object ob')" "JSON_roundtrip ob' = Some v'" for ob' v'
    proof -
      have "map_args as sts1 (exs @ [v']) = Inr (segs1, sts', (exs @ [v']) @ ys)"
        using ys(2) f(3) by simp
      moreover have "exs'[n - 1 := v'] = (exs @ [v']) @ ys"
        using ys(1) f(3) n by (simp add: list_update_append)
      ultimately show ?thesis using that f sg by simp
    qed
    show ?thesis using 0 sg f ys(1) n r by (auto simp: nth_append)
  next
    case (Suc j)
    from format_arg_extra[OF fa] obtain ys1 where
      y1: "exs1 = exs @ ys1" "length ys1 = (if is_extra_arg a then 1 else 0)" by blast
    have n: "n = length exs1 + length (filter is_extra_arg (take (Suc j) as))"
      using Cons.prems(6) Suc y1 by simp
    from Cons.prems Suc have j: "j < length as" "as ! j = Object ob" by simp_all
    from Cons.IH[OF ma j Cons.prems(4,5) n]
    show ?thesis using Suc sg fa by simp
  qed
qed

text \<open>
  C2. Let a call return a record, and let its argument at position \<open>i\<close> be an object that
  is neither an error nor carries a string stack, and that the JSON round trip turns into
  \<open>v\<close>. Let \<open>n\<close> be its position, counted from 1, among the extra arguments of the call.
  Then the message is the segments of the arguments, in their order, joined by a space;
  the segment at position \<open>i\<close> is \<^verbatim>\<open>[extra#n]\<close>; the entry \<open>n - 1\<close> of the extra data is
  \<open>v\<close>; and the message holds nothing of the value: with any other such object in its
  place the record is the same but for that entry of the extra data.
\<close>

theorem extra_placeholder:
  assumes "createLogEntry env ctx lvl args = Inr e"
    and "i < length args" and "args ! i = Object ob"
    and "\<not> instanceof_Error ob" and "stack ob = None"
    and "JSON_roundtrip ob = Some v"
    and "n = length (filter is_extra_arg (take (Suc i) args))"
  shows "\<exists>segs. message e = join '' '' segs \<and> length segs = length args
           \<and> segs ! i = ''[extra#'' @ nat_to_string n @ '']''
           \<and> 0 < n \<and> n \<le> length (extra e) \<and> extra e ! (n - 1) = v
           \<and> (\<forall>ob' v'. \<not> instanceof_Error ob' \<and> stack ob' = None \<and> JSON_roundtrip ob' = Some v' \<longrightarrow>
                 createLogEntry env ctx lvl (args[i := Object ob'])
                   = Inr (e\<lparr>extra := (extra e)[n - 1 := v']\<rparr>))"
proof -
  from assms(1) obtain segs sts exs where
    ma: "map_args args [] [] = Inr (segs, sts, exs)" and
    e: "e = \<lparr> level = lvl, message = join '' '' segs, timestamp = now env,
              url = (case window_href env of None \<Rightarrow> Some ''extension-context'' | Some h \<Rightarrow> h),
              userAgent = (case navigator_userAgent env of None \<Rightarrow> ''extension-context'' | Some ua \<Rightarrow> ua),
              module = ctx, stacks = sts, extra = exs \<rparr>"
    by (auto simp: createLogEntry_def split: sum.splits prod.splits)
  have ex: "is_extra_arg (Object ob)" using assms(4,5) by simp
  have n: "n = length ([]::json list) + length (filter is_extra_arg (take (Suc i) args))"
    using assms(7) by simp
  note p = map_args_position[OF ma assms(2,3) ex assms(6) n]
  from map_args_extra[OF ma] have len: "length segs = length args" by blast
  have "createLogEntry env ctx lvl (args[i := Object ob']) = Inr (e\<lparr>extra := (extra e)[n - 1 := v']\<rparr>)"
    if "\<not> instanceof_Error ob' \<and> stack ob' = None \<and> JSON_roundtrip ob' = Some v'" for ob' v'
  proof -
    from that have "is_extra_arg (Object ob') \<and> JSON_roundtrip ob' = Some v'" by simp
    with p have "map_args (args[i := Object ob']) [] [] = Inr (segs, sts, exs[n - 1 := v'])" by blast
    then show ?thesis by (simp add: createLogEntry_def e)
  qed
  with p len e show ?thesis by (auto simp: placeholder_def)
qed

text \<open>
  The call \<^verbatim>\<open>console.log("user", {a: 1}, 7, [1, 2])\<close>: the array is the second extra
  argument.
\<close>

theorem extra_placeholder_witness:
  "createLogEntry
     \<lparr>now = 0, window_href = Some (Some ''http://localhost:5173/''),
      navigator_userAgent = Some ''UA'', has_console_warn = True\<rparr>
     ''app'' ''log''
     [String ''user'',
      Object \<lparr>instanceof_Error = False, stack = None, toString = Some ''[object Object]'',
              JSON_roundtrip = Some (JObj [(''a'', JNum 1)]), String_of = Some ''[object Object]''\<rparr>,
      Number 7,
      Object \<lparr>instanceof_Error = False, stack = None, toString = Some ''1,2'',
              JSON_roundtrip = Some (JArr [JNum 1, JNum 2]), String_of = Some ''1,2''\<rparr>]
   = Inr \<lparr> level = ''log'', message = ''user [extra#1] 7 [extra#2]'', timestamp = 0,
           url = Some ''http://localhost:5173/'', userAgent = ''UA'', module = ''app'',
           stacks = [], extra = [JObj [(''a'', JNum 1)], JArr [JNum 1, JNum 2]] \<rparr>
   \<and> (\<exists>segs. ''user [extra#1] 7 [extra#2]'' = join '' '' segs \<and> length segs = 4
          \<and> segs ! 3 = ''[extra#'' @ nat_to_string 2 @ '']''
          \<and> [JObj [(''a'', JNum 1)], JArr [JNum 1, JNum 2]] ! (2 - 1) = JArr [JNum 1, JNum 2])"
proof -
  let ?arr = "\<lparr>instanceof_Error = False, stack = None, toString = Some ''1,2'',
              JSON_roundtrip = Some (JArr [JNum 1, JNum 2]), String_of = Some ''1,2''\<rparr>"
  let ?args = "[String ''user'',
      Object \<lparr>instanceof_Error = False, stack = None, toString = Some ''[object Object]'',
              JSON_roundtrip = Some (JObj [(''a'', JNum 1)]), String_of = Some ''[object Object]''\<rparr>,
      Number 7, Object ?arr]"
  let ?e = "\<lparr> level = ''log'', message = ''user [extra#1] 7 [extra#2]'', timestamp = 0,
           url = Some ''http://localhost:5173/'', userAgent = ''UA'', module = ''app'',
           stacks = [], extra = [JObj [(''a'', JNum 1)], JArr [JNum 1, JNum 2]] \<rparr>"
  have h1: "createLogEntry
     \<lparr>now = 0, window_href = Some (Some ''http://localhost:5173/''),
      navigator_userAgent = Some ''UA'', has_console_warn = True\<rparr>
     ''app'' ''log'' ?args = Inr ?e"
    by (simp add: createLogEntry_def placeholder_def nat_to_string.simps digit_char_def
        int_to_string_def)
  have h2: "3 < length ?args" by simp
  have h3: "?args ! 3 = Object ?arr" by simp
  have h4: "\<not> instanceof_Error ?arr" by simp
  have h5: "stack ?arr = None" by simp
  have h6: "JSON_roundtrip ?arr = Some (JArr [JNum 1, JNum 2])" by simp
  have h7: "(2::nat) = length (filter is_extra_arg (take (Suc 3) ?args))" by simp
  from extra_placeholder[OF h1 h2 h3 h4 h5 h6 h7] obtain segs where
    "message ?e = join '' '' segs" "length segs = length ?args"
    "segs ! 3 = ''[extra#'' @ nat_to_string 2 @ '']''"
    "extra ?e ! (2 - 1) = JArr [JNum 1, JNum 2]"
    by blast
  then have "\<exists>segs. ''user [extra#1] 7 [extra#2]'' = join '' '' segs \<and> length segs = 4
          \<and> segs ! 3 = ''[extra#'' @ nat_to_string 2 @ '']''
          \<and> [JObj [(''a'', JNum 1)], JArr [JNum 1, JNum 2]] ! (2 - 1) = JArr [JNum 1, JNum 2]"
    by (intro exI[of _ segs]) simp
  with h1 show ?thesis by blast
qed

section \<open>Error-like arguments\<close>

lemma format_arg_frames:
  assumes "format_arg a sts exs = Inr (seg, sts', exs')"
  shows "sts' = sts @ spec_frames a"
    and "a = Object ob \<Longrightarrow> instanceof_Error ob \<or> stack ob \<noteq> None \<Longrightarrow> toString ob = Some seg"
  using assms
  by (cases a; auto split: if_splits option.splits simp: Let_def spec_stack_text_def trimStart_def)+

lemma map_args_frames:
  "map_args args sts exs = Inr (segs, sts', exs') \<Longrightarrow>
   sts' = sts @ concat (map spec_frames args) \<and>
   (\<forall>i ob. i < length args \<and> args ! i = Object ob \<and> (instanceof_Error ob \<or> stack ob \<noteq> None)
       \<longrightarrow> toString ob = Some (segs ! i))"
proof (induction args arbitrary: sts exs segs)
  case Nil
  then show ?case by simp
next
  case (Cons a as)
  from Cons.prems obtain seg sts1 exs1 segs1 where
    fa: "format_arg a sts exs = Inr (seg, sts1, exs1)" and
    ma: "map_args as sts1 exs1 = Inr (segs1, sts', exs')" and
    sg: "segs = seg # segs1"
    by (auto split: sum.splits prod.splits)
  note ih = Cons.IH[OF ma]
  have "sts' = sts @ concat (map spec_frames (a # as))"
    using ih format_arg_frames(1)[OF fa] by simp
  moreover have "toString ob = Some (segs ! i)"
    if "i < length (a # as)" "(a # as) ! i = Object ob" "instanceof_Error ob \<or> stack ob \<noteq> None" for i ob
  proof (cases i)
    case 0
    then show ?thesis using that sg format_arg_frames(2)[OF fa] by simp
  next
    case (Suc j)
    then show ?thesis using that sg ih by simp
  qed
  ultimately show ?case by blast
qed

text \<open>
  C4, as the code has it. The claim asks for a non-empty list of stack frames whenever an
  argument is error-like; the code appends a frame only when the stack text is there and
  something is left of it, so an error whose stack is just its string form leaves the list
  empty.
\<close>

theorem empty_stack_frames_counterexample:
  "createLogEntry \<lparr>now = 0, window_href = Some (Some ''http://localhost:5173/''),
                    navigator_userAgent = Some ''UA'', has_console_warn = True\<rparr>
     ''unknown'' ''error''
     [Object \<lparr>instanceof_Error = True, stack = Some ''Error: boom'', toString = Some ''Error: boom'',
              JSON_roundtrip = Some (JObj []), String_of = Some ''Error: boom''\<rparr>]
   = Inr \<lparr> level = ''error'', message = ''Error: boom'', timestamp = 0,
           url = Some ''http://localhost:5173/'', userAgent = ''UA'', module = ''unknown'',
           stacks = [], extra = [] \<rparr>"
  by (simp add: createLogEntry_def trimStart_def)

text \<open>
  C4, amended. When a call returns a record, the segment of every error-like argument is
  its own string form, and the stack frames of the record are, in the order of the
  arguments, the stack texts of the error-like arguments with one leading copy of the
  string form stripped and leading white space trimmed, those that are not empty.
\<close>

theorem error_like_arguments:
  assumes "createLogEntry env ctx lvl args = Inr e"
  shows "stacks e = concat (map spec_frames args) \<and>
         (\<exists>segs. message e = join '' '' segs \<and> length segs = length args \<and>
            (\<forall>i ob. i < length args \<and> args ! i = Object ob \<and> (instanceof_Error ob \<or> stack ob \<noteq> None)
               \<longrightarrow> toString ob = Some (segs ! i)))"
proof -
  from assms obtain segs sts exs where
    ma: "map_args args [] [] = Inr (segs, sts, exs)" and
    e: "message e = join '' '' segs" "stacks e = sts"
    by (auto simp: createLogEntry_def split: sum.splits prod.splits)
  from map_args_extra[OF ma] have len: "length segs = length args" by blast
  from map_args_frames[OF ma] e len show ?thesis by auto
qed

text \<open>\<^verbatim>\<open>console.error(new Error("boom"))\<close> with a stack of one frame.\<close>

theorem error_like_arguments_witness:
  "createLogEntry \<lparr>now = 0, window_href = Some (Some ''http://localhost:5173/''),
                    navigator_userAgent = Some ''UA'', has_console_warn = True\<rparr>
     ''checkout'' ''error''
     [Object \<lparr>instanceof_Error = True,
              stack = Some (''Error: boom'' @ [CHR 0x0A] @ ''    at pay (cart.js:3:9)''),
              toString = Some ''Error: boom'',
              JSON_roundtrip = Some (JObj []), String_of = Some ''Error: boom''\<rparr>]
   = Inr \<lparr> level = ''error'', message = ''Error: boom'', timestamp = 0,
           url = Some ''http://localhost:5173/'', userAgent = ''UA'', module = ''checkout'',
           stacks = [''at pay (cart.js:3:9)''], extra = [] \<rparr>
   \<and> [''at pay (cart.js:3:9)'']
     = concat (map spec_frames [Object \<lparr>instanceof_Error = True,
              stack = Some (''Error: boom'' @ [CHR 0x0A] @ ''    at pay (cart.js:3:9)''),
              toString = Some ''Error: boom'',
              JSON_roundtrip = Some (JObj []), String_of = Some ''Error: boom''\<rparr>])"
proof -
  have h: "createLogEntry \<lparr>now = 0, window_href = Some (Some ''http://localhost:5173/''),
                    navigator_userAgent = Some ''UA'', has_console_warn = True\<rparr>
     ''checkout'' ''error''
     [Object \<lparr>instanceof_Error = True,
              stack = Some (''Error: boom'' @ [CHR 0x0A] @ ''    at pay (cart.js:3:9)''),
              toString = Some ''Error: boom'',
              JSON_roundtrip = Some (JObj []), String_of = Some ''Error: boom''\<rparr>]
   = Inr \<lparr> level = ''error'', message = ''Error: boom'', timestamp = 0,
           url = Some ''http://localhost:5173/'', userAgent = ''UA'', module = ''checkout'',
           stacks = [''at pay (cart.js:3:9)''], extra = [] \<rparr>"
    by (simp add: createLogEntry_def trimStart_def is_white_space_def)
  from error_like_arguments[OF h] have
    "stacks \<lparr> level = ''error'', message = ''Error: boom'', timestamp = 0,
           url = Some ''http://localhost:5173/'', userAgent = ''UA'', module = ''checkout'',
           stacks = [''at pay (cart.js:3:9)''], extra = [] \<rparr>
     = concat (map spec_frames [Object \<lparr>instanceof_Error = True,
              stack = Some (''Error: boom'' @ [CHR 0x0A] @ ''    at pay (cart.js:3:9)''),
              toString = Some ''Error: boom'',
              JSON_roundtrip = Some (JObj []), String_of = Some ''Error: boom''\<rparr>])"
    by blast
  with h show ?thesis by simp
qed

section \<open>The batching transport: threshold and timers\<close>

lemma addToBuffer_first:
  assumes "logBuffer st = []" "flushTimeout st = None"
  shows "addToBuffer e st =
     st\<lparr>logBuffer := [e], timerCount := Suc (timerCount st),
        timers := timers st @ [(Suc (timerCount st), FLUSH_DELAY)],
        flushTimeout := Some (Suc (timerCount st))\<rparr>"
  using assms by (simp add: addToBuffer_def MAX_BUFFER_SIZE_def setTimeout_def Let_def)

lemma addToBuffer_pending:
  assumes "flushTimeout st = Some h" "Suc (length (logBuffer st)) < MAX_BUFFER_SIZE"
  shows "addToBuffer e st = st\<lparr>logBuffer := logBuffer st @ [e]\<rparr>"
  using assms by (simp add: addToBuffer_def Let_def)

lemma addToBuffer_full:
  assumes "Suc (length (logBuffer st)) \<ge> MAX_BUFFER_SIZE"
  shows "addToBuffer e st =
     (case flushTimeout st of
        None \<Rightarrow> st\<lparr>logBuffer := [], fetches := fetches st @ [logBuffer st @ [e]]\<rparr>
      | Some h \<Rightarrow> st\<lparr>logBuffer := [], fetches := fetches st @ [logBuffer st @ [e]],
                     timers := filter (\<lambda>(h', d). h' \<noteq> h) (timers st), flushTimeout := None\<rparr>)"
  using assms
  by (simp add: addToBuffer_def flushLogs_def sendLogs_def clearTimeout_def Let_def split: option.splits)

text \<open>A burst below the threshold, from an empty queue: one timer, nothing sent.\<close>

lemma fold_addToBuffer_below:
  assumes "logBuffer st = []" "flushTimeout st = None"
  shows "es \<noteq> [] \<Longrightarrow> length es < MAX_BUFFER_SIZE \<Longrightarrow>
     fold addToBuffer es st =
       st\<lparr>logBuffer := es, timerCount := Suc (timerCount st),
          timers := timers st @ [(Suc (timerCount st), FLUSH_DELAY)],
          flushTimeout := Some (Suc (timerCount st))\<rparr>"
proof (induction es rule: rev_induct)
  case Nil
  then show ?case by simp
next
  case (snoc e es)
  show ?case
  proof (cases "es = []")
    case True
    then show ?thesis using addToBuffer_first[OF assms] by simp
  next
    case False
    with snoc have ih: "fold addToBuffer es st =
       st\<lparr>logBuffer := es, timerCount := Suc (timerCount st),
          timers := timers st @ [(Suc (timerCount st), FLUSH_DELAY)],
          flushTimeout := Some (Suc (timerCount st))\<rparr>" by simp
    show ?thesis using snoc.prems(2)
      by (simp add: ih addToBuffer_pending[where h = "Suc (timerCount st)"])
  qed
qed

text \<open>
  The invariant of the transport holds when the module is loaded and is kept by every
  entry point: at most one flush timer is pending, and none while the queue is empty.
\<close>

lemma module_loaded_inv: "transport_inv module_loaded"
  by (simp add: transport_inv_def module_loaded_def setInterval_def MAX_BUFFER_SIZE_def Let_def)

lemma flushLogs_inv: "transport_inv st \<Longrightarrow> transport_inv (flushLogs st)"
  by (auto simp: transport_inv_def flushLogs_def sendLogs_def clearTimeout_def Let_def MAX_BUFFER_SIZE_def
      split: option.splits)

lemma addToBuffer_inv: "transport_inv st \<Longrightarrow> transport_inv (addToBuffer e st)"
  by (auto simp: transport_inv_def addToBuffer_def flushLogs_def sendLogs_def clearTimeout_def
      setTimeout_def Let_def MAX_BUFFER_SIZE_def split: option.splits)

lemma timeout_fires_inv: "transport_inv st \<Longrightarrow> transport_inv (timeout_fires h st)"
  by (auto simp: transport_inv_def timeout_fires_def flushLogs_def sendLogs_def clearTimeout_def
      Let_def MAX_BUFFER_SIZE_def split: option.splits)

text \<open>The timer of a queued record fires: the queue is sent as one batch.\<close>

lemma timeout_fires_flushes:
  assumes "transport_inv st" and "flushTimeout st = Some h"
  shows "timeout_fires h st =
           st\<lparr>logBuffer := [], fetches := fetches st @ [logBuffer st], timers := [],
              flushTimeout := None\<rparr>"
  using assms
  by (auto simp: transport_inv_def timeout_fires_def flushLogs_def sendLogs_def clearTimeout_def
      Let_def)

lemma interval_fires_inv: "transport_inv st \<Longrightarrow> transport_inv (interval_fires st)"
  by (simp add: interval_fires_def flushLogs_inv)

lemma transport_inv_console_out:
  "transport_inv (st\<lparr>console_out := out\<rparr>) = transport_inv st"
  by (simp add: transport_inv_def split: option.splits)

lemma console_call_inv:
  assumes "transport_inv st"
  shows "console_call cfg env lvl args st = Completed st' \<Longrightarrow> transport_inv st'"
    and "console_call cfg env lvl args st = Thrown err st' \<Longrightarrow> transport_inv st'"
  using assms
  by (auto simp: console_call_def patched_console_def Let_def addToBuffer_inv
      transport_inv_console_out split: if_splits sum.splits)

lemma sendLogs_settled_inv:
  assumes "transport_inv st"
  shows "sendLogs_settled cfg env logs r st = Completed st' \<Longrightarrow> transport_inv st'"
    and "sendLogs_settled cfg env logs r st = Thrown err st' \<Longrightarrow> transport_inv st'"
  using assms console_call_inv[OF assms]
  by (auto simp: sendLogs_settled_def split: fetch_result.splits if_splits)

text \<open>
  C5. In a state of the transport with an empty queue, 50 records queued one after the
  other are sent at once as one batch and leave no timer and no queue; 49 records are all
  queued, with nothing sent and exactly one timer pending, of delay \<^const>\<open>FLUSH_DELAY\<close>.
  And in any state, a record that makes \<^verbatim>\<open>addToBuffer\<close> set a timer found none
  pending.
\<close>

theorem threshold_behaviour:
  assumes "transport_inv st" and "logBuffer st = []"
  shows "(length es = 50 \<longrightarrow>
            fetches (fold addToBuffer es st) = fetches st @ [es] \<and>
            logBuffer (fold addToBuffer es st) = [] \<and>
            timers (fold addToBuffer es st) = [] \<and>
            flushTimeout (fold addToBuffer es st) = None)
       \<and> (length es = 49 \<longrightarrow>
            fetches (fold addToBuffer es st) = fetches st \<and>
            logBuffer (fold addToBuffer es st) = es \<and>
            timers (fold addToBuffer es st) = [(Suc (timerCount st), FLUSH_DELAY)] \<and>
            flushTimeout (fold addToBuffer es st) = Some (Suc (timerCount st)))
       \<and> (timerCount (addToBuffer e st') \<noteq> timerCount st' \<longrightarrow>
            flushTimeout st' = None \<and> (transport_inv st' \<longrightarrow> timers st' = []) \<and>
            timers (addToBuffer e st') = timers st' @ [(Suc (timerCount st'), FLUSH_DELAY)])"
proof -
  from assms have none: "flushTimeout st = None" and notimer: "timers st = []"
    by (auto simp: transport_inv_def split: option.splits)
  show ?thesis
  proof (intro conjI impI)
  assume l: "length es = 49"
  then have "es \<noteq> []" "length es < MAX_BUFFER_SIZE" by (auto simp: MAX_BUFFER_SIZE_def)
  note f = fold_addToBuffer_below[OF assms(2) none this]
  show "fetches (fold addToBuffer es st) = fetches st" by (simp add: f)
  show "logBuffer (fold addToBuffer es st) = es" by (simp add: f)
  show "timers (fold addToBuffer es st) = [(Suc (timerCount st), FLUSH_DELAY)]" by (simp add: f notimer)
  show "flushTimeout (fold addToBuffer es st) = Some (Suc (timerCount st))" by (simp add: f)
next
  assume l: "length es = 50"
  then obtain es' x where es: "es = es' @ [x]" "length es' = 49"
    by (cases es rule: rev_cases) auto
  then have "es' \<noteq> []" "length es' < MAX_BUFFER_SIZE" by (auto simp: MAX_BUFFER_SIZE_def)
  note f = fold_addToBuffer_below[OF assms(2) none this]
  have full: "Suc (length (logBuffer (fold addToBuffer es' st))) \<ge> MAX_BUFFER_SIZE"
    by (simp add: f es MAX_BUFFER_SIZE_def)
  have r: "fold addToBuffer es st = addToBuffer x (fold addToBuffer es' st)" by (simp add: es)
  show "fetches (fold addToBuffer es st) = fetches st @ [es]"
    unfolding r addToBuffer_full[OF full] by (simp add: f es)
  show "logBuffer (fold addToBuffer es st) = []"
    unfolding r addToBuffer_full[OF full] by (simp add: f)
  show "timers (fold addToBuffer es st) = []"
    unfolding r addToBuffer_full[OF full] by (simp add: f notimer)
  show "flushTimeout (fold addToBuffer es st) = None"
    unfolding r addToBuffer_full[OF full] by (simp add: f)
next
  assume c: "timerCount (addToBuffer e st') \<noteq> timerCount st'"
  then show "flushTimeout st' = None"
    by (auto simp: addToBuffer_def flushLogs_def sendLogs_def clearTimeout_def setTimeout_def Let_def
        split: if_splits option.splits)
  from c show "timers st' = []" if "transport_inv st'"
    using that
    by (auto simp: addToBuffer_def flushLogs_def sendLogs_def clearTimeout_def setTimeout_def Let_def
        transport_inv_def split: if_splits option.splits)
  from c show "timers (addToBuffer e st') = timers st' @ [(Suc (timerCount st'), FLUSH_DELAY)]"
    by (auto simp: addToBuffer_def flushLogs_def sendLogs_def clearTimeout_def setTimeout_def Let_def
        split: if_splits option.splits)
  qed
qed

text \<open>Fifty and forty-nine copies of one record, queued in the freshly loaded module.\<close>

theorem threshold_behaviour_witness:
  "transport_inv module_loaded \<and> logBuffer module_loaded = []
   \<and> length (replicate 50 \<lparr> level = ''log'', message = ''tick'', timestamp = 0,
                             url = None, userAgent = ''UA'', module = ''app'',
                             stacks = [], extra = [] \<rparr>) = 50
   \<and> fetches (fold addToBuffer
        (replicate 50 \<lparr> level = ''log'', message = ''tick'', timestamp = 0,
                        url = None, userAgent = ''UA'', module = ''app'',
                        stacks = [], extra = [] \<rparr>) module_loaded)
     = [replicate 50 \<lparr> level = ''log'', message = ''tick'', timestamp = 0,
                       url = None, userAgent = ''UA'', module = ''app'',
                       stacks = [], extra = [] \<rparr>]
   \<and> timers (fold addToBuffer
        (replicate 50 \<lparr> level = ''log'', message = ''tick'', timestamp = 0,
                        url = None, userAgent = ''UA'', module = ''app'',
                        stacks = [], extra = [] \<rparr>) module_loaded) = []
   \<and> fetches (fold addToBuffer
        (replicate 49 \<lparr> level = ''log'', message = ''tick'', timestamp = 0,
                        url = None, userAgent = ''UA'', module = ''app'',
                        stacks = [], extra = [] \<rparr>) module_loaded) = []
   \<and> timers (fold addToBuffer
        (replicate 49 \<lparr> level = ''log'', message = ''tick'', timestamp = 0,
                        url = None, userAgent = ''UA'', module = ''app'',
                        stacks = [], extra = [] \<rparr>) module_loaded) = [(2, 100)]
   \<and> timerCount (addToBuffer \<lparr> level = ''log'', message = ''tick'', timestamp = 0,
                        url = None, userAgent = ''UA'', module = ''app'',
                        stacks = [], extra = [] \<rparr> module_loaded) = 2
   \<and> timerCount module_loaded = 1
   \<and> timers (addToBuffer \<lparr> level = ''log'', message = ''tick'', timestamp = 0,
                        url = None, userAgent = ''UA'', module = ''app'',
                        stacks = [], extra = [] \<rparr> module_loaded) = [(2, 100)]"
proof -
  let ?e = "\<lparr> level = ''log'', message = ''tick'', timestamp = 0,
              url = None, userAgent = ''UA'', module = ''app'', stacks = [], extra = [] \<rparr>"
  have h: "logBuffer module_loaded = []" "flushTimeout module_loaded = None" "timers module_loaded = []"
    and tc: "timerCount module_loaded = 1" and fe: "fetches module_loaded = []"
    by (simp_all add: module_loaded_def setInterval_def Let_def)
  have l50: "length (replicate 50 ?e) = 50" and l49: "length (replicate 49 ?e) = 49" by simp_all
  have c: "timerCount (addToBuffer ?e module_loaded) = 2"
    by (simp add: addToBuffer_first[OF h(1,2)] tc)
  then have ne: "timerCount (addToBuffer ?e module_loaded) \<noteq> timerCount module_loaded"
    by (simp add: tc)
  note t50 = threshold_behaviour[OF module_loaded_inv h(1), of "replicate 50 ?e" ?e module_loaded]
  note t49 = threshold_behaviour[OF module_loaded_inv h(1), of "replicate 49 ?e" ?e module_loaded]
  from t50 l50 have a: "fetches (fold addToBuffer (replicate 50 ?e) module_loaded) = [replicate 50 ?e]"
    "timers (fold addToBuffer (replicate 50 ?e) module_loaded) = []"
    by (simp_all only: fe append_Nil)
  from t49 l49 have b: "fetches (fold addToBuffer (replicate 49 ?e) module_loaded) = []"
    "timers (fold addToBuffer (replicate 49 ?e) module_loaded) = [(2, 100)]"
    by (simp_all only: fe tc FLUSH_DELAY_def) simp_all
  from t49 ne have d: "timers (addToBuffer ?e module_loaded) = [(2, 100)]"
    by (simp add: h tc FLUSH_DELAY_def)
  from module_loaded_inv h l50 a b c tc d show ?thesis by simp
qed



section \<open>Delivery failure\<close>







section \<open>The ingestion endpoint\<close>

lemma getOrCreateLogger_keeps:
  "getOrCreateLogger name st = Some (lg, st1) \<Longrightarrow>
     terminal st1 = terminal st \<and> server_errors st1 = server_errors st"
  by (auto simp: getOrCreateLogger_def Let_def split: option.splits)

text \<open>A record that throws has reached no logger; one that completes has reached one.\<close>

lemma process_log_Thrown:
  "process_log rt log st = Thrown e st' \<Longrightarrow>
     e = TypeError \<and> terminal st' = terminal st \<and> server_errors st' = server_errors st"
  by (auto simp: process_log_def dest: getOrCreateLogger_keeps split: if_splits option.splits prod.splits)

lemma process_log_Completed:
  "process_log rt log st = Completed st' \<Longrightarrow>
     \<exists>lg st1 msg call. log \<noteq> JNull \<and> getOrCreateLogger (module_or_unknown log) st = Some (lg, st1) \<and>
        render_message rt log = Some msg \<and> dispatch rt log msg = Some call \<and>
        st' = st1\<lparr>terminal := terminal st @ [(lg, call)]\<rparr>"
  by (auto simp: process_log_def dest: getOrCreateLogger_keeps split: if_splits option.splits prod.splits)

text \<open>A batch that throws does so at its first failing record, after the records before it.\<close>

lemma forEach_log_Thrown:
  "forEach_log rt logs st = Thrown e st' \<Longrightarrow>
     \<exists>k st1. k < length logs \<and> forEach_log rt (take k logs) st = Completed st1 \<and>
        process_log rt (logs ! k) st1 = Thrown e st'"
proof (induction logs arbitrary: st)
  case Nil
  then show ?case by simp
next
  case (Cons log logs)
  show ?case
  proof (cases "process_log rt log st")
    case (Thrown e1 st1)
    with Cons.prems have "process_log rt ((log # logs) ! 0) st = Thrown e st'" by simp
    then show ?thesis by (intro exI[of _ 0] exI[of _ st]) simp
  next
    case (Completed st1)
    with Cons.prems have "forEach_log rt logs st1 = Thrown e st'" by simp
    from Cons.IH[OF this] obtain k st2 where
      k: "k < length logs" "forEach_log rt (take k logs) st1 = Completed st2"
         "process_log rt (logs ! k) st2 = Thrown e st'" by blast
    then show ?thesis using Completed by (intro exI[of _ "Suc k"] exI[of _ st2]) simp
  qed
qed

lemma forEach_log_Completed:
  "forEach_log rt logs st = Completed st' \<Longrightarrow>
     \<exists>calls. terminal st' = terminal st @ calls \<and> length calls = length logs \<and>
       server_errors st' = server_errors st"
proof (induction logs arbitrary: st)
  case Nil
  then show ?case by simp
next
  case (Cons log logs)
  from Cons.prems obtain st1 where
    p: "process_log rt log st = Completed st1" and f: "forEach_log rt logs st1 = Completed st'"
    by (auto split: outcome.splits)
  from process_log_Completed[OF p] obtain lg call where
    t: "terminal st1 = terminal st @ [(lg, call)]" "server_errors st1 = server_errors st"
    by (auto dest: getOrCreateLogger_keeps)
  from Cons.IH[OF f] obtain calls where
    "terminal st' = terminal st1 @ calls" "length calls = length logs" "server_errors st' = server_errors st1"
    by blast
  with t show ?case by (intro exI[of _ "(lg, call) # calls"]) simp
qed

text \<open>Only a POST reaches the handler.\<close>

lemma middleware_POST:
  "middleware rt method parsed st = (Some r, st') \<Longrightarrow>
     method = ''POST'' \<and> request_end rt parsed st = (r, st')"
  by (auto simp: middleware_def split: if_splits prod.splits)

lemma middleware_other: "method \<noteq> ''POST'' \<Longrightarrow> middleware rt method parsed st = (None, st)"
  by (simp add: middleware_def)

text \<open>The three ways the handler ends.\<close>

lemma request_end_forms:
  assumes "request_end rt parsed st = (r, st')"
  shows "(r, st') = reject st
       \<or> (\<exists>logs. forEach_log rt logs st = Completed st' \<and> r = success_response)
       \<or> (\<exists>logs e st2. forEach_log rt logs st = Thrown e st2 \<and> (r, st') = reject st2)"
proof (cases parsed)
  case None
  with assms show ?thesis by (simp add: request_end_def)
next
  case (Some v)
  show ?thesis
  proof (cases "v = JNull")
    case True
    with Some assms show ?thesis by (simp add: request_end_def)
  next
    case False
    with Some assms have r: "(r, st') = (case field v ''logs'' of
             Some (JArr logs) \<Rightarrow>
               (case forEach_log rt logs st of
                  Completed st' \<Rightarrow> (success_response, st')
                | Thrown e st' \<Rightarrow> reject st')
           | _ \<Rightarrow> reject st)"
      by (cases v) (simp_all add: request_end_def)
    show ?thesis
    proof (cases "\<exists>logs. field v ''logs'' = Some (JArr logs)")
      case True
      then obtain logs where l: "field v ''logs'' = Some (JArr logs)" by blast
      show ?thesis
      proof (cases "forEach_log rt logs st")
        case (Completed st2)
        with r l show ?thesis by auto
      next
        case (Thrown e st2)
        with r l show ?thesis by auto
      qed
    next
      case False
      with r have "(r, st') = reject st"
        by (auto split: option.splits json.splits)
      then show ?thesis by blast
    qed
  qed
qed

section \<open>The logger cache and the calls of a batch\<close>

lemma cache_get_append:
  "cache_get (c @ [(k, lg)]) v =
     (case cache_get c v of Some l \<Rightarrow> Some l | None \<Rightarrow> if same_key k v then Some lg else None)"
  by (induction c) auto

lemma same_key_JStr: "same_key k (JStr name) = (k = JStr name)"
  by (cases k) auto

lemma cache_wf_from_append:
  "cache_wf_from n c \<Longrightarrow> to_str k = Some name \<Longrightarrow> serial lg = n + length c \<Longrightarrow>
   prefix lg = ''['' @ name @ '']'' \<Longrightarrow> cache_wf_from n (c @ [(k, lg)])"
  by (induction c arbitrary: n) (auto split: option.splits)

lemma cache_wf_from_get:
  "cache_wf_from n c \<Longrightarrow> cache_get c (JStr name) = Some lg \<Longrightarrow> prefix lg = ''['' @ name @ '']''"
  by (induction c arbitrary: n) (auto simp: same_key_JStr split: option.splits if_splits)

text \<open>\<^verbatim>\<open>getOrCreateLogger\<close> returns the cached logger, or stores a new one at the end.\<close>

lemma getOrCreateLogger_cases:
  assumes "getOrCreateLogger name st = Some (lg, st1)"
  shows "(cache_get (loggerCache st) name = Some lg \<and> st1 = st) \<or>
         (cache_get (loggerCache st) name = None \<and>
          (\<exists>p. to_str name = Some p \<and> lg = \<lparr>serial = length (loggerCache st), prefix = ''['' @ p @ '']''\<rparr>) \<and>
          st1 = st\<lparr>loggerCache := loggerCache st @ [(name, lg)]\<rparr>)"
  using assms by (auto simp: getOrCreateLogger_def Let_def split: option.splits)

lemma getOrCreateLogger_persists:
  assumes "getOrCreateLogger name st = Some (lg, st1)" "cache_get (loggerCache st) k = Some l"
  shows "cache_get (loggerCache st1) k = Some l"
  using getOrCreateLogger_cases[OF assms(1)] assms(2) by (auto simp: cache_get_append)

lemma getOrCreateLogger_wf:
  assumes "getOrCreateLogger name st = Some (lg, st1)" "cache_wf (loggerCache st)"
  shows "cache_wf (loggerCache st1)"
proof -
  from getOrCreateLogger_cases[OF assms(1)]
  consider "st1 = st"
    | p where "to_str name = Some p"
        "lg = \<lparr>serial = length (loggerCache st), prefix = ''['' @ p @ '']''\<rparr>"
        "st1 = st\<lparr>loggerCache := loggerCache st @ [(name, lg)]\<rparr>"
    by auto
  then show ?thesis
  proof cases
    case 1
    with assms(2) show ?thesis by simp
  next
    case 2
    from assms(2) have "cache_wf_from 0 (loggerCache st)" by (simp add: cache_wf_def)
    from cache_wf_from_append[OF this 2(1), of lg] 2(2,3) show ?thesis
      by (simp add: cache_wf_def)
  qed
qed

lemma module_or_unknown_absent:
  "field log ''module'' = None \<or> field log ''module'' = Some JNull \<or> field log ''module'' = Some (JStr [])
     \<Longrightarrow> module_or_unknown log = JStr ''unknown''"
  by (auto simp: module_or_unknown_def)

text \<open>No step of the server removes or replaces a logger of the cache.\<close>

lemma process_log_cache:
  assumes "process_log rt log st = Completed st' \<or> process_log rt log st = Thrown e st'"
  shows "(\<forall>k l. cache_get (loggerCache st) k = Some l \<longrightarrow> cache_get (loggerCache st') k = Some l)
       \<and> (cache_wf (loggerCache st) \<longrightarrow> cache_wf (loggerCache st'))"
  using assms
  by (auto simp: process_log_def split: if_splits option.splits prod.splits
      dest: getOrCreateLogger_persists getOrCreateLogger_wf)

lemma forEach_log_cache:
  "forEach_log rt logs st = Completed st' \<or> forEach_log rt logs st = Thrown e st' \<Longrightarrow>
   (\<forall>k l. cache_get (loggerCache st) k = Some l \<longrightarrow> cache_get (loggerCache st') k = Some l)
   \<and> (cache_wf (loggerCache st) \<longrightarrow> cache_wf (loggerCache st'))"
proof (induction logs arbitrary: st)
  case Nil
  then show ?case by simp
next
  case (Cons log logs)
  show ?case
  proof (cases "process_log rt log st")
    case (Thrown e1 st1)
    with Cons.prems have "st' = st1" by auto
    with process_log_cache[of rt log st st1 e1] Thrown show ?thesis by blast
  next
    case (Completed st1)
    with Cons.prems have "forEach_log rt logs st1 = Completed st' \<or> forEach_log rt logs st1 = Thrown e st'"
      by simp
    from Cons.IH[OF this] process_log_cache[of rt log st st1] Completed show ?thesis by blast
  qed
qed

lemma request_end_cache:
  assumes "request_end rt parsed st = (r, st')"
  shows "(\<forall>k l. cache_get (loggerCache st) k = Some l \<longrightarrow> cache_get (loggerCache st') k = Some l)
       \<and> (cache_wf (loggerCache st) \<longrightarrow> cache_wf (loggerCache st'))"
proof -
  from request_end_forms[OF assms]
  consider "loggerCache st' = loggerCache st"
    | logs where "forEach_log rt logs st = Completed st'"
    | logs e st2 where "forEach_log rt logs st = Thrown e st2" "loggerCache st' = loggerCache st2"
    by (auto simp: reject_def)
  then show ?thesis
  proof cases
    case 1
    then show ?thesis by simp
  next
    case 2
    with forEach_log_cache[of rt logs st st'] show ?thesis by blast
  next
    case 3
    with forEach_log_cache[of rt logs st st2 e] show ?thesis by simp
  qed
qed

lemma requests_cache:
  "st' = fold (\<lambda>parsed s. snd (request_end rt parsed s)) requests st \<Longrightarrow>
   (\<forall>k l. cache_get (loggerCache st) k = Some l \<longrightarrow> cache_get (loggerCache st') k = Some l)
   \<and> (cache_wf (loggerCache st) \<longrightarrow> cache_wf (loggerCache st'))"
proof (induction requests arbitrary: st)
  case Nil
  then show ?case by simp
next
  case (Cons parsed requests)
  obtain r st1 where r: "request_end rt parsed st = (r, st1)" by (cases "request_end rt parsed st")
  with Cons.prems have "st' = fold (\<lambda>parsed s. snd (request_end rt parsed s)) requests st1" by simp
  from Cons.IH[OF this] request_end_cache[OF r] show ?case by blast
qed

lemma server_start_wf: "cache_wf (loggerCache server_start)"
  by (simp add: server_start_def cache_wf_def)

text \<open>Where a processed record with a module name goes.\<close>

lemma process_log_routes:
  assumes "cache_wf (loggerCache st)" and "process_log rt log st = Completed st'"
    and "module_or_unknown log = JStr name"
  shows "\<exists>lg call. terminal st' = terminal st @ [(lg, call)] \<and> prefix lg = ''['' @ name @ '']'' \<and>
               cache_get (loggerCache st') (JStr name) = Some lg \<and>
               (case cache_get (loggerCache st) (JStr name) of
                  Some lg0 \<Rightarrow> lg = lg0 \<and> loggerCache st' = loggerCache st
                | None \<Rightarrow> serial lg = length (loggerCache st) \<and>
                    loggerCache st' = loggerCache st @ [(JStr name, lg)])"
proof -
  from process_log_Completed[OF assms(2)] obtain lg st1 msg call where
    g: "getOrCreateLogger (module_or_unknown log) st = Some (lg, st1)" and
    s: "st' = st1\<lparr>terminal := terminal st @ [(lg, call)]\<rparr>"
    by blast
  have c: "loggerCache st' = loggerCache st1" using s by simp
  from getOrCreateLogger_cases[OF g] assms(3)
  consider (old) "cache_get (loggerCache st) (JStr name) = Some lg" "st1 = st"
    | (new) "cache_get (loggerCache st) (JStr name) = None"
        "lg = \<lparr>serial = length (loggerCache st), prefix = ''['' @ name @ '']''\<rparr>"
        "st1 = st\<lparr>loggerCache := loggerCache st @ [(JStr name, lg)]\<rparr>"
    by auto
  then show ?thesis
  proof cases
    case old
    with assms(1) have "prefix lg = ''['' @ name @ '']''"
      by (auto simp: cache_wf_def dest: cache_wf_from_get)
    with old s c show ?thesis by (intro exI[of _ lg] exI[of _ call]) simp
  next
    case new
    with s c show ?thesis
      by (intro exI[of _ lg] exI[of _ call]) (simp add: cache_get_append)
  qed
qed

lemma module_or_unknown_named:
  "field log ''module'' = Some (JStr m) \<Longrightarrow> m \<noteq> [] \<Longrightarrow> module_or_unknown log = JStr m"
  by (simp add: module_or_unknown_def)

text \<open>The same through any steps of the server.\<close>

lemma run_step_cache:
  "(\<forall>k l. cache_get (loggerCache st) k = Some l \<longrightarrow> cache_get (loggerCache (run_step rt step st)) k = Some l)
   \<and> (cache_wf (loggerCache st) \<longrightarrow> cache_wf (loggerCache (run_step rt step st)))"
proof (cases step)
  case (Record log)
  show ?thesis
  proof (cases "process_log rt log st")
    case (Completed st1)
    with process_log_cache[of rt log st st1] Record show ?thesis by simp
  next
    case (Thrown e st1)
    with process_log_cache[of rt log st st1 e] Record show ?thesis by simp
  qed
next
  case (Request parsed)
  obtain r st1 where r: "request_end rt parsed st = (r, st1)" by (cases "request_end rt parsed st")
  with request_end_cache[OF r] Request show ?thesis by simp
qed

lemma run_steps_cache:
  "(\<forall>k l. cache_get (loggerCache st) k = Some l \<longrightarrow> cache_get (loggerCache (run_steps rt steps st)) k = Some l)
   \<and> (cache_wf (loggerCache st) \<longrightarrow> cache_wf (loggerCache (run_steps rt steps st)))"
proof (induction steps arbitrary: st)
  case Nil
  then show ?case by (simp add: run_steps_def)
next
  case (Cons step steps)
  have "run_steps rt (step # steps) st = run_steps rt steps (run_step rt step st)"
    by (simp add: run_steps_def)
  with Cons.IH[of "run_step rt step st"] run_step_cache[of st rt step] show ?case by simp
qed

text \<open>
  The call a processed record makes: the rendered message, dispatched by the level, on
  the logger of its module name.
\<close>

lemma process_log_call:
  assumes "process_log rt log st = Completed st'"
  shows "\<exists>lg msg call. terminal st' = terminal st @ [(lg, call)] \<and>
           render_message rt log = Some msg \<and> dispatch rt log msg = Some call \<and>
           (cache_wf (loggerCache st) \<longrightarrow>
              (\<forall>name. module_or_unknown log = JStr name \<longrightarrow> prefix lg = ''['' @ name @ '']''))"
proof -
  from process_log_Completed[OF assms] obtain lg st1 msg call where
    a: "render_message rt log = Some msg" "dispatch rt log msg = Some call"
       "st' = st1\<lparr>terminal := terminal st @ [(lg, call)]\<rparr>" by blast
  have "prefix lg = ''['' @ name @ '']''"
    if "cache_wf (loggerCache st)" "module_or_unknown log = JStr name" for name
  proof -
    from process_log_routes[OF that(1) assms that(2)] obtain lg' call' where
      "terminal st' = terminal st @ [(lg', call')]" "prefix lg' = ''['' @ name @ '']''" by blast
    with a(3) show ?thesis by simp
  qed
  with a show ?thesis by (intro exI[of _ lg] exI[of _ msg] exI[of _ call]) simp
qed

lemma forEach_log_calls:
  "forEach_log rt logs st = Completed st' \<Longrightarrow>
     \<exists>calls. terminal st' = terminal st @ calls \<and> length calls = length logs \<and>
       (\<forall>i<length logs. \<exists>lg msg call. calls ! i = (lg, call) \<and>
           render_message rt (logs ! i) = Some msg \<and> dispatch rt (logs ! i) msg = Some call \<and>
           (cache_wf (loggerCache st) \<longrightarrow>
              (\<forall>name. module_or_unknown (logs ! i) = JStr name \<longrightarrow> prefix lg = ''['' @ name @ '']'')))"
proof (induction logs arbitrary: st)
  case Nil
  then show ?case by simp
next
  case (Cons log logs)
  from Cons.prems obtain st1 where
    p: "process_log rt log st = Completed st1" and f: "forEach_log rt logs st1 = Completed st'"
    by (auto split: outcome.splits)
  from process_log_call[OF p] obtain lg msg call where
    t: "terminal st1 = terminal st @ [(lg, call)]"
       "render_message rt log = Some msg" "dispatch rt log msg = Some call"
       "cache_wf (loggerCache st) \<longrightarrow>
              (\<forall>name. module_or_unknown log = JStr name \<longrightarrow> prefix lg = ''['' @ name @ '']'')"
    by blast
  from process_log_cache[of rt log st st1] p
  have w: "cache_wf (loggerCache st) \<longrightarrow> cache_wf (loggerCache st1)" by blast
  from Cons.IH[OF f] obtain calls where
    c: "terminal st' = terminal st1 @ calls" "length calls = length logs"
       "\<forall>i<length logs. \<exists>lg msg call. calls ! i = (lg, call) \<and>
           render_message rt (logs ! i) = Some msg \<and> dispatch rt (logs ! i) msg = Some call \<and>
           (cache_wf (loggerCache st1) \<longrightarrow>
              (\<forall>name. module_or_unknown (logs ! i) = JStr name \<longrightarrow> prefix lg = ''['' @ name @ '']''))"
    by blast
  have "\<exists>lg' msg' call'. ((lg, call) # calls) ! i = (lg', call') \<and>
           render_message rt ((log # logs) ! i) = Some msg' \<and> dispatch rt ((log # logs) ! i) msg' = Some call' \<and>
           (cache_wf (loggerCache st) \<longrightarrow>
              (\<forall>name. module_or_unknown ((log # logs) ! i) = JStr name \<longrightarrow> prefix lg' = ''['' @ name @ '']''))"
    if "i < length (log # logs)" for i
  proof (cases i)
    case 0
    with t show ?thesis by simp
  next
    case (Suc j)
    with that have "j < length logs" by simp
    with c(3) obtain lg' msg' call' where
      "calls ! j = (lg', call')" "render_message rt (logs ! j) = Some msg'"
      "dispatch rt (logs ! j) msg' = Some call'"
      "cache_wf (loggerCache st1) \<longrightarrow>
              (\<forall>name. module_or_unknown (logs ! j) = JStr name \<longrightarrow> prefix lg' = ''['' @ name @ '']'')"
      by blast
    with Suc w show ?thesis by (intro exI[of _ lg'] exI[of _ msg'] exI[of _ call']) simp
  qed
  with t(1) c(1,2) show ?case by (intro exI[of _ "(lg, call) # calls"]) simp
qed

section \<open>Malformed batches\<close>

text \<open>
  C3, as the code has it. The claim has no record of the batch forwarded when the answer
  is 400. The records are forwarded one by one inside the \<^verbatim>\<open>try\<close>: in the batch
  \<^verbatim>\<open>{"logs":[{"level":"info","message":"hello"},null]}\<close> the first record has reached
  its logger when reading \<^verbatim>\<open>module\<close> of the second throws, and the answer is 400.
\<close>

theorem partial_batch_counterexample:
  "\<forall>rt. request_end rt
      (Some (JObj [(''logs'', JArr [JObj [(''level'', JStr ''info''), (''message'', JStr ''hello'')], JNull])]))
      server_start
    = (invalid_json_response,
       \<lparr> loggerCache = [(JStr ''unknown'', \<lparr>serial = 0, prefix = ''[unknown]''\<rparr>)],
         terminal = [(\<lparr>serial = 0, prefix = ''[unknown]''\<rparr>, LoggerInfo ''[info] hello'')],
         server_errors = [''Error processing client logs:''] \<rparr>)"
  by (simp add: request_end_def process_log_def getOrCreateLogger_def module_or_unknown_def
      render_message_def dispatch_def nonempty_def reject_def server_start_def Let_def)

text \<open>
  C3, amended. Whenever the answer is 400, its body is \<^verbatim>\<open>{"error":"Invalid JSON"}\<close>.
  When the body is not valid JSON, or its \<^verbatim>\<open>logs\<close> is not an array, no record has been
  forwarded and no logger made. When \<^verbatim>\<open>logs\<close> is an array, the failure is at one of its
  records: the records before it have been forwarded, one call each and in their order,
  each with its own rendered message on the logger of its module, exactly as for a batch
  that ends there and is answered 200; that record and those after it have not.
\<close>

theorem bad_request:
  assumes "request_end rt parsed st = (r, st')" and "status r = 400"
  shows "r = invalid_json_response
       \<and> ((\<forall>v logs. parsed = Some v \<longrightarrow> field v ''logs'' \<noteq> Some (JArr logs)) \<longrightarrow>
             terminal st' = terminal st \<and> loggerCache st' = loggerCache st)
       \<and> (\<forall>v logs. parsed = Some v \<and> field v ''logs'' = Some (JArr logs) \<longrightarrow>
             (\<exists>k st1 calls. k < length logs \<and>
                 forEach_log rt (take k logs) st = Completed st1 \<and>
                 process_log rt (logs ! k) st1 = Thrown TypeError (st'\<lparr>server_errors := server_errors st\<rparr>) \<and>
                 terminal st' = terminal st @ calls \<and> length calls = k \<and>
                 terminal st1 = terminal st' \<and>
                 request_end rt (Some (JObj [(''logs'', JArr (take k logs))])) st = (success_response, st1) \<and>
                 (\<forall>i<k. \<exists>lg msg call. calls ! i = (lg, call) \<and>
                     render_message rt (logs ! i) = Some msg \<and> dispatch rt (logs ! i) msg = Some call \<and>
                     (cache_wf (loggerCache st) \<longrightarrow>
                        (\<forall>name. module_or_unknown (logs ! i) = JStr name \<longrightarrow>
                           prefix lg = ''['' @ name @ '']'')))))"
proof -
  have a: "r = invalid_json_response"
    using assms
    by (auto simp: request_end_def reject_def success_response_def
        split: option.splits json.splits outcome.splits)
  have b: "(\<forall>v logs. parsed = Some v \<longrightarrow> field v ''logs'' \<noteq> Some (JArr logs)) \<longrightarrow>
             terminal st' = terminal st \<and> loggerCache st' = loggerCache st"
    using assms(1)
    by (auto simp: request_end_def reject_def split: option.splits json.splits outcome.splits)
  have c: "\<exists>k st1 calls. k < length logs \<and>
                 forEach_log rt (take k logs) st = Completed st1 \<and>
                 process_log rt (logs ! k) st1 = Thrown TypeError (st'\<lparr>server_errors := server_errors st\<rparr>) \<and>
                 terminal st' = terminal st @ calls \<and> length calls = k \<and>
                 terminal st1 = terminal st' \<and>
                 request_end rt (Some (JObj [(''logs'', JArr (take k logs))])) st = (success_response, st1) \<and>
                 (\<forall>i<k. \<exists>lg msg call. calls ! i = (lg, call) \<and>
                     render_message rt (logs ! i) = Some msg \<and> dispatch rt (logs ! i) msg = Some call \<and>
                     (cache_wf (loggerCache st) \<longrightarrow>
                        (\<forall>name. module_or_unknown (logs ! i) = JStr name \<longrightarrow>
                           prefix lg = ''['' @ name @ '']'')))"
    if p: "parsed = Some v \<and> field v ''logs'' = Some (JArr logs)" for v logs
  proof -
    from p have nn: "v \<noteq> JNull" by auto
    from p nn assms obtain e st2 where
      f: "forEach_log rt logs st = Thrown e st2" and r: "(r, st') = reject st2"
      by (cases v) (auto simp: request_end_def success_response_def split: outcome.splits)
    from forEach_log_Thrown[OF f] obtain k st1 where
      k: "k < length logs" "forEach_log rt (take k logs) st = Completed st1"
         "process_log rt (logs ! k) st1 = Thrown e st2" by blast
    from forEach_log_Completed[OF k(2)] have se: "server_errors st1 = server_errors st" by blast
    from forEach_log_calls[OF k(2)] k(1) obtain calls where
      c: "terminal st1 = terminal st @ calls" "length calls = k"
         "\<forall>i<k. \<exists>lg msg call. calls ! i = (lg, call) \<and>
           render_message rt (take k logs ! i) = Some msg \<and> dispatch rt (take k logs ! i) msg = Some call \<and>
           (cache_wf (loggerCache st) \<longrightarrow>
              (\<forall>name. module_or_unknown (take k logs ! i) = JStr name \<longrightarrow> prefix lg = ''['' @ name @ '']''))"
      by auto
    have c3: "\<forall>i<k. \<exists>lg msg call. calls ! i = (lg, call) \<and>
           render_message rt (logs ! i) = Some msg \<and> dispatch rt (logs ! i) msg = Some call \<and>
           (cache_wf (loggerCache st) \<longrightarrow>
              (\<forall>name. module_or_unknown (logs ! i) = JStr name \<longrightarrow> prefix lg = ''['' @ name @ '']''))"
      using c(3) by simp
    from process_log_Thrown[OF k(3)] have
      t: "e = TypeError" "terminal st2 = terminal st1" "server_errors st2 = server_errors st1" by auto
    from r have st': "st' = st2\<lparr>server_errors := server_errors st2 @ [''Error processing client logs:'']\<rparr>"
      by (simp add: reject_def)
    have s2: "st'\<lparr>server_errors := server_errors st\<rparr> = st2" using st' t(3) se by simp
    have ok: "request_end rt (Some (JObj [(''logs'', JArr (take k logs))])) st = (success_response, st1)"
      using k(2) by (simp add: request_end_def)
    have t1: "terminal st1 = terminal st'" using st' t(2) by simp
    have t2: "terminal st' = terminal st @ calls" using t1 c(1) by simp
    from k(1,2) k(3)[unfolded t(1)] s2 t2 c(2) t1 ok c3 show ?thesis
      by (intro exI[of _ k] exI[of _ st1] exI[of _ calls]) simp
  qed
  have C: "\<forall>v logs. parsed = Some v \<and> field v ''logs'' = Some (JArr logs) \<longrightarrow>
             (\<exists>k st1 calls. k < length logs \<and>
                 forEach_log rt (take k logs) st = Completed st1 \<and>
                 process_log rt (logs ! k) st1 = Thrown TypeError (st'\<lparr>server_errors := server_errors st\<rparr>) \<and>
                 terminal st' = terminal st @ calls \<and> length calls = k \<and>
                 terminal st1 = terminal st' \<and>
                 request_end rt (Some (JObj [(''logs'', JArr (take k logs))])) st = (success_response, st1) \<and>
                 (\<forall>i<k. \<exists>lg msg call. calls ! i = (lg, call) \<and>
                     render_message rt (logs ! i) = Some msg \<and> dispatch rt (logs ! i) msg = Some call \<and>
                     (cache_wf (loggerCache st) \<longrightarrow>
                        (\<forall>name. module_or_unknown (logs ! i) = JStr name \<longrightarrow>
                           prefix lg = ''['' @ name @ '']''))))"
    by (intro allI impI c)
  show ?thesis by (intro conjI; fact)
qed

text \<open>
  A body that is not JSON; and the batch
  \<^verbatim>\<open>{"logs":[{"level":"warn","message":"slow","module":"cart"},
  {"level":"error","message":"boom","stacks":[1]}]}\<close>, whose second record fails at
  \<^verbatim>\<open>stack.split\<close> after the first has reached the logger of \<^verbatim>\<open>cart\<close>.
\<close>

theorem bad_request_witness:
  "\<forall>rt.
     request_end rt None server_start
       = (invalid_json_response, server_start\<lparr>server_errors := [''Error processing client logs:'']\<rparr>)
     \<and> status invalid_json_response = 400
     \<and> terminal (server_start\<lparr>server_errors := [''Error processing client logs:'']\<rparr>)
         = terminal server_start
     \<and> request_end rt
         (Some (JObj [(''logs'', JArr
            [JObj [(''level'', JStr ''warn''), (''message'', JStr ''slow''), (''module'', JStr ''cart'')],
             JObj [(''level'', JStr ''error''), (''message'', JStr ''boom''), (''stacks'', JArr [JNum 1])]])]))
         server_start
       = (invalid_json_response,
          \<lparr> loggerCache = [(JStr ''cart'', \<lparr>serial = 0, prefix = ''[cart]''\<rparr>),
                           (JStr ''unknown'', \<lparr>serial = 1, prefix = ''[unknown]''\<rparr>)],
            terminal = [(\<lparr>serial = 0, prefix = ''[cart]''\<rparr>, LoggerWarn ''[warn] slow'')],
            server_errors = [''Error processing client logs:''] \<rparr>)
     \<and> (\<exists>k calls. k < 2 \<and>
            [(\<lparr>serial = 0, prefix = ''[cart]''\<rparr>, LoggerWarn ''[warn] slow'')]
              = terminal server_start @ calls \<and> length calls = k)
     \<and> request_end rt
         (Some (JObj [(''logs'', JArr
            [JObj [(''level'', JStr ''warn''), (''message'', JStr ''slow''), (''module'', JStr ''cart'')]])]))
         server_start
       = (success_response,
          \<lparr> loggerCache = [(JStr ''cart'', \<lparr>serial = 0, prefix = ''[cart]''\<rparr>)],
            terminal = [(\<lparr>serial = 0, prefix = ''[cart]''\<rparr>, LoggerWarn ''[warn] slow'')],
            server_errors = [] \<rparr>)"
proof
  fix rt
  let ?logs = "[JObj [(''level'', JStr ''warn''), (''message'', JStr ''slow''), (''module'', JStr ''cart'')],
             JObj [(''level'', JStr ''error''), (''message'', JStr ''boom''), (''stacks'', JArr [JNum 1])]]"
  let ?st' = "\<lparr> loggerCache = [(JStr ''cart'', \<lparr>serial = 0, prefix = ''[cart]''\<rparr>),
                           (JStr ''unknown'', \<lparr>serial = 1, prefix = ''[unknown]''\<rparr>)],
            terminal = [(\<lparr>serial = 0, prefix = ''[cart]''\<rparr>, LoggerWarn ''[warn] slow'')],
            server_errors = [''Error processing client logs:''] \<rparr>"
  let ?st1 = "\<lparr> loggerCache = [(JStr ''cart'', \<lparr>serial = 0, prefix = ''[cart]''\<rparr>)],
            terminal = [(\<lparr>serial = 0, prefix = ''[cart]''\<rparr>, LoggerWarn ''[warn] slow'')],
            server_errors = [] \<rparr>"
  have s: "status invalid_json_response = 400" by (simp add: invalid_json_response_def)
  have n: "request_end rt None server_start
       = (invalid_json_response, server_start\<lparr>server_errors := [''Error processing client logs:'']\<rparr>)"
    by (simp add: request_end_def reject_def server_start_def)
  have nl: "\<forall>v logs. (None :: json option) = Some v \<longrightarrow> field v ''logs'' \<noteq> Some (JArr logs)" by simp
  from bad_request[OF n s] nl
  have t0: "terminal (server_start\<lparr>server_errors := [''Error processing client logs:'']\<rparr>)
         = terminal server_start" by blast
  have p: "request_end rt (Some (JObj [(''logs'', JArr ?logs)])) server_start = (invalid_json_response, ?st')"
    by (simp add: request_end_def process_log_def getOrCreateLogger_def module_or_unknown_def
        render_message_def dispatch_def nonempty_def reject_def server_start_def Let_def)
  have f: "Some (JObj [(''logs'', JArr ?logs)]) = Some (JObj [(''logs'', JArr ?logs)])
             \<and> field (JObj [(''logs'', JArr ?logs)]) ''logs'' = Some (JArr ?logs)" by simp
  from bad_request[OF p s] have
    "\<forall>v logs. Some (JObj [(''logs'', JArr ?logs)]) = Some v \<and> field v ''logs'' = Some (JArr logs) \<longrightarrow>
       (\<exists>k st1 calls. k < length logs \<and>
                 forEach_log rt (take k logs) server_start = Completed st1 \<and>
                 process_log rt (logs ! k) st1
                   = Thrown TypeError (?st'\<lparr>server_errors := server_errors server_start\<rparr>) \<and>
                 terminal ?st' = terminal server_start @ calls \<and> length calls = k \<and>
                 terminal st1 = terminal ?st' \<and>
                 request_end rt (Some (JObj [(''logs'', JArr (take k logs))])) server_start
                   = (success_response, st1) \<and>
                 (\<forall>i<k. \<exists>lg msg call. calls ! i = (lg, call) \<and>
                     render_message rt (logs ! i) = Some msg \<and> dispatch rt (logs ! i) msg = Some call \<and>
                     (cache_wf (loggerCache server_start) \<longrightarrow>
                        (\<forall>name. module_or_unknown (logs ! i) = JStr name \<longrightarrow>
                           prefix lg = ''['' @ name @ '']''))))"
    by (rule conjunct2[THEN conjunct2])
  with f obtain k st1 calls where
    "k < length ?logs" "terminal ?st' = terminal server_start @ calls" "length calls = k"
    by blast
  then have e: "\<exists>k calls. k < 2 \<and>
            [(\<lparr>serial = 0, prefix = ''[cart]''\<rparr>, LoggerWarn ''[warn] slow'')]
              = terminal server_start @ calls \<and> length calls = k"
    by (intro exI[of _ k] exI[of _ calls]) simp
  have q: "request_end rt (Some (JObj [(''logs'', JArr (take 1 ?logs))])) server_start = (success_response, ?st1)"
    by (simp add: request_end_def process_log_def getOrCreateLogger_def module_or_unknown_def
        render_message_def dispatch_def nonempty_def success_response_def server_start_def Let_def)
  then have q': "request_end rt
         (Some (JObj [(''logs'', JArr
            [JObj [(''level'', JStr ''warn''), (''message'', JStr ''slow''), (''module'', JStr ''cart'')]])]))
         server_start = (success_response, ?st1)" by simp
  from n s t0 p e q'
  show "request_end rt None server_start
       = (invalid_json_response, server_start\<lparr>server_errors := [''Error processing client logs:'']\<rparr>)
     \<and> status invalid_json_response = 400
     \<and> terminal (server_start\<lparr>server_errors := [''Error processing client logs:'']\<rparr>)
         = terminal server_start
     \<and> request_end rt (Some (JObj [(''logs'', JArr ?logs)])) server_start = (invalid_json_response, ?st')
     \<and> (\<exists>k calls. k < 2 \<and>
            [(\<lparr>serial = 0, prefix = ''[cart]''\<rparr>, LoggerWarn ''[warn] slow'')]
              = terminal server_start @ calls \<and> length calls = k)
     \<and> request_end rt
         (Some (JObj [(''logs'', JArr
            [JObj [(''level'', JStr ''warn''), (''message'', JStr ''slow''), (''module'', JStr ''cart'')]])]))
         server_start = (success_response, ?st1)"
    by blast
qed

section \<open>Dispatch by level\<close>

lemma those_indent_stack:
  "those (map indent_stack xs) = Some ts \<Longrightarrow> \<exists>ss. xs = map JStr ss"
proof (induction xs arbitrary: ts)
  case Nil
  then show ?case by simp
next
  case (Cons x xs)
  from Cons.prems obtain t ts' where
    x: "indent_stack x = Some t" and r: "those (map indent_stack xs) = Some ts'"
    by (auto split: option.splits)
  from x obtain s where "x = JStr s" by (cases x) auto
  moreover from Cons.IH[OF r] obtain ss where "xs = map JStr ss" by blast
  ultimately have "x # xs = map JStr (s # ss)" by simp
  then show ?case by (rule exI)
qed

lemma those_to_str_strings:
  "those (map ((\<lambda>x. if x = JNull then Some [] else to_str x) \<circ> JStr) ss) = Some ss"
  by (induction ss) auto

lemma array_join_strings: "array_join sep (JArr (map JStr ss)) = Some (join sep ss)"
  by (simp add: those_to_str_strings)

lemma render_stacks_Some:
  "render_stacks v = Some t \<Longrightarrow> \<exists>ss. v = JArr (map JStr ss)"
  by (cases v) (auto dest: those_indent_stack)

lemma nonempty_array: "nonempty rt (Some (JArr xs)) = Some (xs \<noteq> [])"
  by (simp add: nonempty_def)

text \<open>
  When the message of a record has been rendered, its \<^verbatim>\<open>stacks\<close> pass the test
  \<^verbatim>\<open>log.stacks && log.stacks.length > 0\<close> exactly when they are a non-empty array,
  and then an array of strings.
\<close>

lemma render_message_stacks:
  assumes "render_message rt log = Some msg"
  shows "(\<forall>xs. field log ''stacks'' = Some (JArr xs) \<and> xs \<noteq> [] \<longrightarrow> (\<exists>ss. xs = map JStr ss))
       \<and> (nonempty rt (field log ''stacks'') = Some True \<longrightarrow> (\<exists>x xs. field log ''stacks'' = Some (JArr (x # xs))))
       \<and> nonempty rt (field log ''stacks'') \<noteq> None"
proof -
  from assms obtain hs where hs: "nonempty rt (field log ''stacks'') = Some hs"
    and rs: "hs \<longrightarrow> (\<exists>t. render_stacks (the (field log ''stacks'')) = Some t)"
    by (auto simp: render_message_def split: Option.bind_splits if_splits)
  have a: "\<exists>ss. xs = map JStr ss" if "field log ''stacks'' = Some (JArr xs) \<and> xs \<noteq> []" for xs
  proof -
    from that hs have "hs" by (simp add: nonempty_array)
    with rs that obtain t where "render_stacks (JArr xs) = Some t" by auto
    from render_stacks_Some[OF this] show ?thesis by simp
  qed
  have b: "\<exists>x xs. field log ''stacks'' = Some (JArr (x # xs))" if "nonempty rt (field log ''stacks'') = Some True"
  proof -
    from that hs have h: "hs" by simp
    with rs obtain t where t: "render_stacks (the (field log ''stacks'')) = Some t" by auto
    from that have "field log ''stacks'' \<noteq> None"
      by (cases "field log ''stacks''") (auto simp: nonempty_def)
    then obtain v where v: "field log ''stacks'' = Some v" by auto
    with t render_stacks_Some obtain ss where ss: "v = JArr (map JStr ss)" by fastforce
    with that v have "ss \<noteq> []" by (auto simp: nonempty_def)
    with v ss show ?thesis by (cases ss) auto
  qed
  from a b hs show ?thesis by auto
qed

lemma those_indent_strings: "those (map (indent_stack \<circ> JStr) ss) = Some (map indent_lines ss)"
  by (induction ss) auto

text \<open>
  A record of the declared type \<^verbatim>\<open>LogEntry\<close> is processed without a throw: an object
  with strings for \<^verbatim>\<open>level\<close> and \<^verbatim>\<open>message\<close>, and, where present, strings for
  \<^verbatim>\<open>url\<close> and \<^verbatim>\<open>module\<close>, an array of strings for \<^verbatim>\<open>stacks\<close> and an array for
  \<^verbatim>\<open>extra\<close>.
\<close>

lemma typed_record_processed:
  assumes "log = JObj kvs"
    and "field log ''level'' = Some (JStr lvl)" and "field log ''message'' = Some (JStr msg)"
    and "field log ''url'' = None \<or> (\<exists>u. field log ''url'' = Some (JStr u))"
    and "field log ''module'' = None \<or> (\<exists>m. field log ''module'' = Some (JStr m))"
    and "field log ''stacks'' = None \<or> (\<exists>ss. field log ''stacks'' = Some (JArr (map JStr ss)))"
    and "field log ''extra'' = None \<or> (\<exists>xs. field log ''extra'' = Some (JArr xs))"
  shows "\<exists>st'. process_log rt log st = Completed st'"
proof -
  have n: "log \<noteq> JNull" using assms(1) by simp
  have "\<exists>name. module_or_unknown log = JStr name" using assms(5)
    by (auto simp: module_or_unknown_def)
  then obtain name where "module_or_unknown log = JStr name" by blast
  then have "\<exists>res. getOrCreateLogger (module_or_unknown log) st = Some res"
    by (cases "cache_get (loggerCache st) (JStr name)") (simp_all add: getOrCreateLogger_def Let_def)
  then obtain lg st1 where g: "getOrCreateLogger (module_or_unknown log) st = Some (lg, st1)"
    by auto
  have s: "\<exists>b. nonempty rt (field log ''stacks'') = Some b \<and>
              (b \<longrightarrow> (\<exists>t. render_stacks (the (field log ''stacks'')) = Some t) \<and>
                     (\<exists>t. array_join [CHR 0x0A] (the (field log ''stacks'')) = Some t))"
    using assms(6) by (auto simp: nonempty_def those_indent_strings those_to_str_strings)
  have x: "\<exists>b. nonempty rt (field log ''extra'') = Some b" using assms(7)
    by (auto simp: nonempty_def)
  have l: "\<exists>t. (if truthy (field log ''url'')
                    then map_option (\<lambda>u. '' ('' @ u @ '')'') (template (field log ''url''))
                    else Some []) = Some t" using assms(4) by auto
  from s obtain b where b: "nonempty rt (field log ''stacks'') = Some b"
    "b \<longrightarrow> (\<exists>t. render_stacks (the (field log ''stacks'')) = Some t)"
    "b \<longrightarrow> (\<exists>t. array_join [CHR 0x0A] (the (field log ''stacks'')) = Some t)" by blast
  from x obtain c where c: "nonempty rt (field log ''extra'') = Some c" by blast
  from l obtain loc where loc: "(if truthy (field log ''url'')
                    then map_option (\<lambda>u. '' ('' @ u @ '')'') (template (field log ''url''))
                    else Some []) = Some loc" by blast
  have "\<exists>m. render_message rt log = Some m"
  proof (cases b)
    case True
    with b(2) obtain t where "render_stacks (the (field log ''stacks'')) = Some t" by blast
    with True b(1) c loc assms(2,3) show ?thesis
      by (simp add: render_message_def del: render_stacks.simps)
  next
    case False
    with b(1) c loc assms(2,3) show ?thesis
      by (simp add: render_message_def del: render_stacks.simps)
  qed
  then obtain m where m: "render_message rt log = Some m" by blast
  have "\<exists>call. dispatch rt log m = Some call"
  proof (cases b)
    case True
    with b(3) obtain t where "array_join [CHR 0x0A] (the (field log ''stacks'')) = Some t" by blast
    with True b(1) show ?thesis by (simp add: dispatch_def del: array_join.simps)
  next
    case False
    with b(1) show ?thesis by (simp add: dispatch_def del: array_join.simps)
  qed
  then obtain call where "dispatch rt log m = Some call" by blast
  with n g m show ?thesis by (simp add: process_log_def)
qed

text \<open>
  C8. A record that has been processed has made one call on its logger, with the rendered
  message. Level \<^verbatim>\<open>error\<close>: the call is \<^verbatim>\<open>error\<close>, the attached error made of the
  stack frames joined by line feeds when \<^verbatim>\<open>stacks\<close> is a non-empty array, \<^verbatim>\<open>null\<close>
  otherwise. Level \<^verbatim>\<open>warn\<close>: the call is \<^verbatim>\<open>warn\<close>. Levels \<^verbatim>\<open>info\<close> and
  \<^verbatim>\<open>debug\<close>, and any other value: the call is \<^verbatim>\<open>info\<close>.
\<close>

theorem level_dispatch:
  assumes "process_log rt log st = Completed st'"
  shows "\<exists>lg msg call. terminal st' = terminal st @ [(lg, call)] \<and> render_message rt log = Some msg \<and>
     (field log ''level'' = Some (JStr ''error'') \<longrightarrow>
        (\<forall>xs. field log ''stacks'' = Some (JArr xs) \<and> xs \<noteq> [] \<longrightarrow>
           (\<exists>frames. xs = map JStr frames \<and> call = LoggerError msg (Some (join [CHR 0x0A] frames)))) \<and>
        ((\<forall>x xs. field log ''stacks'' \<noteq> Some (JArr (x # xs))) \<longrightarrow> call = LoggerError msg None)) \<and>
     (field log ''level'' = Some (JStr ''warn'') \<longrightarrow> call = LoggerWarn msg) \<and>
     (field log ''level'' = Some (JStr ''info'') \<longrightarrow> call = LoggerInfo msg) \<and>
     (field log ''level'' = Some (JStr ''debug'') \<longrightarrow> call = LoggerInfo msg) \<and>
     (field log ''level'' \<noteq> Some (JStr ''error'') \<and> field log ''level'' \<noteq> Some (JStr ''warn'') \<longrightarrow>
        call = LoggerInfo msg)"
proof -
  from process_log_Completed[OF assms] obtain lg st1 msg call where
    g: "getOrCreateLogger (module_or_unknown log) st = Some (lg, st1)" and
    m: "render_message rt log = Some msg" and d: "dispatch rt log msg = Some call" and
    s: "st' = st1\<lparr>terminal := terminal st @ [(lg, call)]\<rparr>"
    by blast
  note rs = render_message_stacks[OF m]
  have e1: "\<exists>frames. xs = map JStr frames \<and> call = LoggerError msg (Some (join [CHR 0x0A] frames))"
    if "field log ''level'' = Some (JStr ''error'')" "field log ''stacks'' = Some (JArr xs) \<and> xs \<noteq> []" for xs
  proof -
    from rs that(2) obtain frames where f: "xs = map JStr frames" by blast
    from that(2) have "nonempty rt (field log ''stacks'') = Some True" by (simp add: nonempty_array)
    with d that f have "call = LoggerError msg (Some (join [CHR 0x0A] frames))"
      by (simp add: dispatch_def array_join_strings del: array_join.simps)
    with f show ?thesis by blast
  qed
  have e2: "call = LoggerError msg None"
    if "field log ''level'' = Some (JStr ''error'')" "\<forall>x xs. field log ''stacks'' \<noteq> Some (JArr (x # xs))"
  proof -
    from rs that(2) obtain b where "nonempty rt (field log ''stacks'') = Some b" "\<not> b"
      by (cases "nonempty rt (field log ''stacks'')") auto
    with d that(1) show ?thesis by (simp add: dispatch_def)
  qed
  have w: "field log ''level'' = Some (JStr ''warn'') \<longrightarrow> call = LoggerWarn msg"
    and i: "field log ''level'' = Some (JStr ''info'') \<longrightarrow> call = LoggerInfo msg"
    and db: "field log ''level'' = Some (JStr ''debug'') \<longrightarrow> call = LoggerInfo msg"
    and o: "field log ''level'' \<noteq> Some (JStr ''error'') \<and> field log ''level'' \<noteq> Some (JStr ''warn'') \<longrightarrow>
        call = LoggerInfo msg"
    using d by (auto simp: dispatch_def split: if_splits)
  from s have t: "terminal st' = terminal st @ [(lg, call)]" by simp
  from t m e1 e2 w i db o show ?thesis by blast
qed

text \<open>
  The record of \<^verbatim>\<open>console.error(new Error("boom"))\<close> from the module \<^verbatim>\<open>checkout\<close>,
  with a stack of two lines.
\<close>

theorem level_dispatch_witness:
  "\<forall>rt.
     process_log rt
       (JObj [(''level'', JStr ''error''), (''message'', JStr ''boom''), (''module'', JStr ''checkout''),
              (''url'', JStr ''http://localhost:5173/''),
              (''stacks'', JArr [JStr (''at pay (cart.js:3:9)'' @ [CHR 0x0A] @ ''    at main (app.js:1:1)'')])])
       server_start
     = Completed \<lparr> loggerCache = [(JStr ''checkout'', \<lparr>serial = 0, prefix = ''[checkout]''\<rparr>)],
         terminal = [(\<lparr>serial = 0, prefix = ''[checkout]''\<rparr>,
           LoggerError (''[error] boom (http://localhost:5173/)'' @ [CHR 0x0A] @ ''    at pay (cart.js:3:9)''
                        @ [CHR 0x0A] @ ''        at main (app.js:1:1)'')
             (Some (''at pay (cart.js:3:9)'' @ [CHR 0x0A] @ ''    at main (app.js:1:1)'')))],
         server_errors = [] \<rparr>
     \<and> (\<exists>lg msg frames.
           [(\<lparr>serial = 0, prefix = ''[checkout]''\<rparr>,
             LoggerError (''[error] boom (http://localhost:5173/)'' @ [CHR 0x0A] @ ''    at pay (cart.js:3:9)''
                        @ [CHR 0x0A] @ ''        at main (app.js:1:1)'')
               (Some (''at pay (cart.js:3:9)'' @ [CHR 0x0A] @ ''    at main (app.js:1:1)'')))]
             = terminal server_start @ [(lg, LoggerError msg (Some (join [CHR 0x0A] frames)))])"
proof
  fix rt
  let ?log = "JObj [(''level'', JStr ''error''), (''message'', JStr ''boom''), (''module'', JStr ''checkout''),
              (''url'', JStr ''http://localhost:5173/''),
              (''stacks'', JArr [JStr (''at pay (cart.js:3:9)'' @ [CHR 0x0A] @ ''    at main (app.js:1:1)'')])]"
  let ?call = "LoggerError (''[error] boom (http://localhost:5173/)'' @ [CHR 0x0A] @ ''    at pay (cart.js:3:9)''
                        @ [CHR 0x0A] @ ''        at main (app.js:1:1)'')
             (Some (''at pay (cart.js:3:9)'' @ [CHR 0x0A] @ ''    at main (app.js:1:1)''))"
  let ?st' = "\<lparr> loggerCache = [(JStr ''checkout'', \<lparr>serial = 0, prefix = ''[checkout]''\<rparr>)],
         terminal = [(\<lparr>serial = 0, prefix = ''[checkout]''\<rparr>, ?call)],
         server_errors = [] \<rparr>"
  have h: "process_log rt ?log server_start = Completed ?st'"
    by (simp add: process_log_def getOrCreateLogger_def module_or_unknown_def
        render_message_def dispatch_def nonempty_def server_start_def Let_def indent_lines_def)
  have l: "field ?log ''level'' = Some (JStr ''error'')" by simp
  have k: "field ?log ''stacks''
             = Some (JArr [JStr (''at pay (cart.js:3:9)'' @ [CHR 0x0A] @ ''    at main (app.js:1:1)'')])
           \<and> [JStr (''at pay (cart.js:3:9)'' @ [CHR 0x0A] @ ''    at main (app.js:1:1)'')] \<noteq> []"
    by simp
  from level_dispatch[OF h] l k obtain lg msg call frames where
    "terminal ?st' = terminal server_start @ [(lg, call)]"
    "call = LoggerError msg (Some (join [CHR 0x0A] frames))"
    by blast
  then have "\<exists>lg msg frames. [(\<lparr>serial = 0, prefix = ''[checkout]''\<rparr>, ?call)]
             = terminal server_start @ [(lg, LoggerError msg (Some (join [CHR 0x0A] frames)))]"
    by (intro exI[of _ lg] exI[of _ msg] exI[of _ frames]) simp
  with h show "process_log rt ?log server_start = Completed ?st'
     \<and> (\<exists>lg msg frames. [(\<lparr>serial = 0, prefix = ''[checkout]''\<rparr>, ?call)]
             = terminal server_start @ [(lg, LoggerError msg (Some (join [CHR 0x0A] frames)))])"
    by blast
qed

section \<open>One logger per module\<close>

text \<open>
  Two records of one module name, any number of requests apart: the second reaches the
  logger of the first.
\<close>

lemma same_module_same_logger:
  assumes "cache_wf (loggerCache st)"
    and "process_log rt log1 st = Completed st1"
    and "st2 = fold (\<lambda>parsed s. snd (request_end rt parsed s)) requests st1"
    and "process_log rt log2 st2 = Completed st3"
    and "module_or_unknown log1 = JStr name" and "module_or_unknown log2 = JStr name"
  shows "fst (last (terminal st3)) = fst (last (terminal st1))"
proof -
  from process_log_routes[OF assms(1,2,5)] obtain lg1 call1 where
    a: "terminal st1 = terminal st @ [(lg1, call1)]"
       "cache_get (loggerCache st1) (JStr name) = Some lg1" by blast
  from process_log_cache[of rt log1 st st1] assms(1,2) have w1: "cache_wf (loggerCache st1)" by blast
  from requests_cache[OF assms(3)] a(2) w1 have
    b: "cache_get (loggerCache st2) (JStr name) = Some lg1" "cache_wf (loggerCache st2)" by blast+
  from process_log_routes[OF b(2) assms(4,6)] b(1) obtain call2 where
    "terminal st3 = terminal st2 @ [(lg1, call2)]" by auto
  with a(1) show ?thesis by simp
qed

text \<open>
  C10. Let the cache be one the server can have built, and let a record be processed. If
  its \<^verbatim>\<open>module\<close> is absent, \<^verbatim>\<open>null\<close> or the empty string, its module name is
  \<^verbatim>\<open>unknown\<close> and its call goes to the logger \<^verbatim>\<open>[unknown]\<close>; if its \<^verbatim>\<open>module\<close>
  is a non-empty string, that string is its module name and its call goes to the logger
  with that name in its prefix. Whatever its module name, the logger is the one the cache
  held for the name, the cache being left as it was, or, when it held none, a new logger
  stored under the name; and every logger the cache held is still the one held for its
  name afterwards. Whatever the server does next, a later record reaches the same logger
  exactly when it has the same module name, and then no logger is made for it.
\<close>

theorem module_routing:
  assumes "cache_wf (loggerCache st)" and "process_log rt log st = Completed st'"
  shows "(field log ''module'' = None \<or> field log ''module'' = Some JNull \<or>
          field log ''module'' = Some (JStr []) \<longrightarrow> module_or_unknown log = JStr ''unknown'')
       \<and> (\<forall>name. module_or_unknown log = JStr name \<longrightarrow>
            (\<exists>lg call. terminal st' = terminal st @ [(lg, call)] \<and> prefix lg = ''['' @ name @ '']'' \<and>
               cache_get (loggerCache st') (JStr name) = Some lg \<and>
               (case cache_get (loggerCache st) (JStr name) of
                  Some lg0 \<Rightarrow> lg = lg0 \<and> loggerCache st' = loggerCache st
                | None \<Rightarrow> serial lg = length (loggerCache st) \<and>
                    loggerCache st' = loggerCache st @ [(JStr name, lg)])))
       \<and> (\<forall>k lg0. cache_get (loggerCache st) k = Some lg0 \<longrightarrow> cache_get (loggerCache st') k = Some lg0)
       \<and> cache_wf (loggerCache st')
       \<and> (\<forall>m. field log ''module'' = Some (JStr m) \<and> m \<noteq> [] \<longrightarrow>
            module_or_unknown log = JStr m \<and>
            (\<exists>lg call. terminal st' = terminal st @ [(lg, call)] \<and> prefix lg = ''['' @ m @ '']''))
       \<and> (field log ''module'' = None \<or> field log ''module'' = Some JNull \<or>
          field log ''module'' = Some (JStr []) \<longrightarrow>
            (\<exists>lg call. terminal st' = terminal st @ [(lg, call)] \<and> prefix lg = ''[unknown]''))
       \<and> (\<forall>name other steps log2 st3.
            module_or_unknown log = JStr name \<and> module_or_unknown log2 = JStr other \<and>
            process_log rt log2 (run_steps rt steps st') = Completed st3 \<longrightarrow>
            (\<exists>lg c1 lg2 c2.
               terminal st' = terminal st @ [(lg, c1)] \<and>
               terminal st3 = terminal (run_steps rt steps st') @ [(lg2, c2)] \<and>
               (lg2 = lg \<longleftrightarrow> other = name) \<and>
               (other = name \<longrightarrow> loggerCache st3 = loggerCache (run_steps rt steps st'))))"
proof -
  from process_log_cache[of rt log st st'] assms
  have p: "\<forall>k lg0. cache_get (loggerCache st) k = Some lg0 \<longrightarrow> cache_get (loggerCache st') k = Some lg0"
    and w: "cache_wf (loggerCache st')" by blast+
  note r = process_log_routes[OF assms]
  have m: "module_or_unknown log = JStr m \<and>
            (\<exists>lg call. terminal st' = terminal st @ [(lg, call)] \<and> prefix lg = ''['' @ m @ '']'')"
    if "field log ''module'' = Some (JStr m) \<and> m \<noteq> []" for m
  proof -
    from that have n: "module_or_unknown log = JStr m" by (simp add: module_or_unknown_named)
    from r[OF n] n show ?thesis by blast
  qed
  have u: "\<exists>lg call. terminal st' = terminal st @ [(lg, call)] \<and> prefix lg = ''[unknown]''"
    if "field log ''module'' = None \<or> field log ''module'' = Some JNull \<or>
          field log ''module'' = Some (JStr [])"
  proof -
    from module_or_unknown_absent[OF that] have n: "module_or_unknown log = JStr ''unknown''" .
    from r[OF n] show ?thesis by auto
  qed
  have e: "\<exists>lg c1 lg2 c2.
               terminal st' = terminal st @ [(lg, c1)] \<and>
               terminal st3 = terminal (run_steps rt steps st') @ [(lg2, c2)] \<and>
               (lg2 = lg \<longleftrightarrow> other = name) \<and>
               (other = name \<longrightarrow> loggerCache st3 = loggerCache (run_steps rt steps st'))"
    if h: "module_or_unknown log = JStr name \<and> module_or_unknown log2 = JStr other \<and>
            process_log rt log2 (run_steps rt steps st') = Completed st3"
    for name other steps log2 st3
  proof -
    let ?st2 = "run_steps rt steps st'"
    from h have n1: "module_or_unknown log = JStr name" and n2: "module_or_unknown log2 = JStr other"
      and p2: "process_log rt log2 ?st2 = Completed st3" by blast+
    from r[OF n1] obtain lg c1 where
      a: "terminal st' = terminal st @ [(lg, c1)]" "prefix lg = ''['' @ name @ '']''"
         "cache_get (loggerCache st') (JStr name) = Some lg" by blast
    from run_steps_cache[of st' rt steps] a(3) w have
      b: "cache_get (loggerCache ?st2) (JStr name) = Some lg" "cache_wf (loggerCache ?st2)" by blast+
    from process_log_routes[OF b(2) p2 n2] obtain lg2 c2 where
      c: "terminal st3 = terminal ?st2 @ [(lg2, c2)]" "prefix lg2 = ''['' @ other @ '']''"
         "case cache_get (loggerCache ?st2) (JStr other) of
                  Some lg0 \<Rightarrow> lg2 = lg0 \<and> loggerCache st3 = loggerCache ?st2
                | None \<Rightarrow> serial lg2 = length (loggerCache ?st2) \<and>
                    loggerCache st3 = loggerCache ?st2 @ [(JStr other, lg2)]" by blast
    have same: "lg2 = lg \<and> loggerCache st3 = loggerCache ?st2" if "other = name"
      using that c(3) b(1) by simp
    have diff: "other = name" if "lg2 = lg"
      using that a(2) c(2) by simp
    have "lg2 = lg \<longleftrightarrow> other = name" using same diff by blast
    moreover have "other = name \<longrightarrow> loggerCache st3 = loggerCache ?st2" using same by blast
    ultimately show ?thesis using a(1) c(1)
      by (intro exI[of _ lg] exI[of _ c1] exI[of _ lg2] exI[of _ c2]) simp
  qed
  have A: "field log ''module'' = None \<or> field log ''module'' = Some JNull \<or>
          field log ''module'' = Some (JStr []) \<longrightarrow> module_or_unknown log = JStr ''unknown''"
    using module_or_unknown_absent by blast
  have B: "\<forall>name. module_or_unknown log = JStr name \<longrightarrow>
            (\<exists>lg call. terminal st' = terminal st @ [(lg, call)] \<and> prefix lg = ''['' @ name @ '']'' \<and>
               cache_get (loggerCache st') (JStr name) = Some lg \<and>
               (case cache_get (loggerCache st) (JStr name) of
                  Some lg0 \<Rightarrow> lg = lg0 \<and> loggerCache st' = loggerCache st
                | None \<Rightarrow> serial lg = length (loggerCache st) \<and>
                    loggerCache st' = loggerCache st @ [(JStr name, lg)]))"
    using r by blast
  have M: "\<forall>m. field log ''module'' = Some (JStr m) \<and> m \<noteq> [] \<longrightarrow>
            module_or_unknown log = JStr m \<and>
            (\<exists>lg call. terminal st' = terminal st @ [(lg, call)] \<and> prefix lg = ''['' @ m @ '']'')"
    using m by blast
  have U: "field log ''module'' = None \<or> field log ''module'' = Some JNull \<or>
          field log ''module'' = Some (JStr []) \<longrightarrow>
            (\<exists>lg call. terminal st' = terminal st @ [(lg, call)] \<and> prefix lg = ''[unknown]'')"
    using u by blast
  have E: "\<forall>name other steps log2 st3.
            module_or_unknown log = JStr name \<and> module_or_unknown log2 = JStr other \<and>
            process_log rt log2 (run_steps rt steps st') = Completed st3 \<longrightarrow>
            (\<exists>lg c1 lg2 c2.
               terminal st' = terminal st @ [(lg, c1)] \<and>
               terminal st3 = terminal (run_steps rt steps st') @ [(lg2, c2)] \<and>
               (lg2 = lg \<longleftrightarrow> other = name) \<and>
               (other = name \<longrightarrow> loggerCache st3 = loggerCache (run_steps rt steps st')))"
    by (intro allI impI e)
  show ?thesis by (intro conjI; fact)
qed

text \<open>
  Three records, the first the server gets: one of the module \<^verbatim>\<open>cart\<close>, one with
  \<^verbatim>\<open>"module": null\<close>, and another of \<^verbatim>\<open>cart\<close>. The first makes the logger
  \<^verbatim>\<open>[cart]\<close>, the second the logger \<^verbatim>\<open>[unknown]\<close>, and the third reaches the logger
  of the first and makes none.
\<close>

theorem module_routing_witness:
  "\<forall>rt.
     cache_wf (loggerCache server_start)
     \<and> field (JObj [(''level'', JStr ''info''), (''message'', JStr ''add''), (''module'', JStr ''cart'')]) ''module'' = Some (JStr ''cart'')
     \<and> process_log rt (JObj [(''level'', JStr ''info''), (''message'', JStr ''add''), (''module'', JStr ''cart'')]) server_start = Completed (\<lparr> loggerCache = [(JStr ''cart'', \<lparr>serial = 0, prefix = ''[cart]''\<rparr>)], terminal = [(\<lparr>serial = 0, prefix = ''[cart]''\<rparr>, LoggerInfo ''[info] add'')], server_errors = [] \<rparr>)
     \<and> field (JObj [(''level'', JStr ''debug''), (''message'', JStr ''x''), (''module'', JNull)]) ''module'' = Some JNull
     \<and> run_steps rt [Record (JObj [(''level'', JStr ''debug''), (''message'', JStr ''x''), (''module'', JNull)])] (\<lparr> loggerCache = [(JStr ''cart'', \<lparr>serial = 0, prefix = ''[cart]''\<rparr>)], terminal = [(\<lparr>serial = 0, prefix = ''[cart]''\<rparr>, LoggerInfo ''[info] add'')], server_errors = [] \<rparr>) = \<lparr> loggerCache = [(JStr ''cart'', \<lparr>serial = 0, prefix = ''[cart]''\<rparr>), (JStr ''unknown'', \<lparr>serial = 1, prefix = ''[unknown]''\<rparr>)], terminal = [(\<lparr>serial = 0, prefix = ''[cart]''\<rparr>, LoggerInfo ''[info] add''), (\<lparr>serial = 1, prefix = ''[unknown]''\<rparr>, LoggerInfo ''[debug] x'')], server_errors = [] \<rparr>
     \<and> process_log rt (JObj [(''level'', JStr ''warn''), (''message'', JStr ''slow''), (''module'', JStr ''cart'')]) (\<lparr> loggerCache = [(JStr ''cart'', \<lparr>serial = 0, prefix = ''[cart]''\<rparr>), (JStr ''unknown'', \<lparr>serial = 1, prefix = ''[unknown]''\<rparr>)], terminal = [(\<lparr>serial = 0, prefix = ''[cart]''\<rparr>, LoggerInfo ''[info] add''), (\<lparr>serial = 1, prefix = ''[unknown]''\<rparr>, LoggerInfo ''[debug] x'')], server_errors = [] \<rparr>) = Completed (\<lparr> loggerCache = [(JStr ''cart'', \<lparr>serial = 0, prefix = ''[cart]''\<rparr>), (JStr ''unknown'', \<lparr>serial = 1, prefix = ''[unknown]''\<rparr>)], terminal = [(\<lparr>serial = 0, prefix = ''[cart]''\<rparr>, LoggerInfo ''[info] add''), (\<lparr>serial = 1, prefix = ''[unknown]''\<rparr>, LoggerInfo ''[debug] x''), (\<lparr>serial = 0, prefix = ''[cart]''\<rparr>, LoggerWarn ''[warn] slow'')], server_errors = [] \<rparr>)
     \<and> module_or_unknown (JObj [(''level'', JStr ''info''), (''message'', JStr ''add''), (''module'', JStr ''cart'')]) = JStr ''cart''
     \<and> module_or_unknown (JObj [(''level'', JStr ''debug''), (''message'', JStr ''x''), (''module'', JNull)]) = JStr ''unknown''
     \<and> module_or_unknown (JObj [(''level'', JStr ''warn''), (''message'', JStr ''slow''), (''module'', JStr ''cart'')]) = JStr ''cart''
     \<and> loggerCache (\<lparr> loggerCache = [(JStr ''cart'', \<lparr>serial = 0, prefix = ''[cart]''\<rparr>), (JStr ''unknown'', \<lparr>serial = 1, prefix = ''[unknown]''\<rparr>)], terminal = [(\<lparr>serial = 0, prefix = ''[cart]''\<rparr>, LoggerInfo ''[info] add''), (\<lparr>serial = 1, prefix = ''[unknown]''\<rparr>, LoggerInfo ''[debug] x''), (\<lparr>serial = 0, prefix = ''[cart]''\<rparr>, LoggerWarn ''[warn] slow'')], server_errors = [] \<rparr>) = loggerCache (\<lparr> loggerCache = [(JStr ''cart'', \<lparr>serial = 0, prefix = ''[cart]''\<rparr>), (JStr ''unknown'', \<lparr>serial = 1, prefix = ''[unknown]''\<rparr>)], terminal = [(\<lparr>serial = 0, prefix = ''[cart]''\<rparr>, LoggerInfo ''[info] add''), (\<lparr>serial = 1, prefix = ''[unknown]''\<rparr>, LoggerInfo ''[debug] x'')], server_errors = [] \<rparr>)
     \<and> (\<exists>lg c1 c2. terminal (\<lparr> loggerCache = [(JStr ''cart'', \<lparr>serial = 0, prefix = ''[cart]''\<rparr>)], terminal = [(\<lparr>serial = 0, prefix = ''[cart]''\<rparr>, LoggerInfo ''[info] add'')], server_errors = [] \<rparr>) = terminal server_start @ [(lg, c1)] \<and>
                     terminal (\<lparr> loggerCache = [(JStr ''cart'', \<lparr>serial = 0, prefix = ''[cart]''\<rparr>), (JStr ''unknown'', \<lparr>serial = 1, prefix = ''[unknown]''\<rparr>)], terminal = [(\<lparr>serial = 0, prefix = ''[cart]''\<rparr>, LoggerInfo ''[info] add''), (\<lparr>serial = 1, prefix = ''[unknown]''\<rparr>, LoggerInfo ''[debug] x''), (\<lparr>serial = 0, prefix = ''[cart]''\<rparr>, LoggerWarn ''[warn] slow'')], server_errors = [] \<rparr>) = terminal (\<lparr> loggerCache = [(JStr ''cart'', \<lparr>serial = 0, prefix = ''[cart]''\<rparr>), (JStr ''unknown'', \<lparr>serial = 1, prefix = ''[unknown]''\<rparr>)], terminal = [(\<lparr>serial = 0, prefix = ''[cart]''\<rparr>, LoggerInfo ''[info] add''), (\<lparr>serial = 1, prefix = ''[unknown]''\<rparr>, LoggerInfo ''[debug] x'')], server_errors = [] \<rparr>) @ [(lg, c2)] \<and> prefix lg = ''[cart]'')
     \<and> (\<exists>lg call. terminal (\<lparr> loggerCache = [(JStr ''cart'', \<lparr>serial = 0, prefix = ''[cart]''\<rparr>), (JStr ''unknown'', \<lparr>serial = 1, prefix = ''[unknown]''\<rparr>)], terminal = [(\<lparr>serial = 0, prefix = ''[cart]''\<rparr>, LoggerInfo ''[info] add''), (\<lparr>serial = 1, prefix = ''[unknown]''\<rparr>, LoggerInfo ''[debug] x'')], server_errors = [] \<rparr>) = terminal (\<lparr> loggerCache = [(JStr ''cart'', \<lparr>serial = 0, prefix = ''[cart]''\<rparr>)], terminal = [(\<lparr>serial = 0, prefix = ''[cart]''\<rparr>, LoggerInfo ''[info] add'')], server_errors = [] \<rparr>) @ [(lg, call)] \<and> prefix lg = ''[unknown]'')"
proof
  fix rt
  let ?r1 = "JObj [(''level'', JStr ''info''), (''message'', JStr ''add''), (''module'', JStr ''cart'')]"
  let ?r2 = "JObj [(''level'', JStr ''debug''), (''message'', JStr ''x''), (''module'', JNull)]"
  let ?r3 = "JObj [(''level'', JStr ''warn''), (''message'', JStr ''slow''), (''module'', JStr ''cart'')]"
  let ?S1 = "\<lparr> loggerCache = [(JStr ''cart'', \<lparr>serial = 0, prefix = ''[cart]''\<rparr>)], terminal = [(\<lparr>serial = 0, prefix = ''[cart]''\<rparr>, LoggerInfo ''[info] add'')], server_errors = [] \<rparr>"
  let ?S2 = "\<lparr> loggerCache = [(JStr ''cart'', \<lparr>serial = 0, prefix = ''[cart]''\<rparr>), (JStr ''unknown'', \<lparr>serial = 1, prefix = ''[unknown]''\<rparr>)], terminal = [(\<lparr>serial = 0, prefix = ''[cart]''\<rparr>, LoggerInfo ''[info] add''), (\<lparr>serial = 1, prefix = ''[unknown]''\<rparr>, LoggerInfo ''[debug] x'')], server_errors = [] \<rparr>"
  let ?S3 = "\<lparr> loggerCache = [(JStr ''cart'', \<lparr>serial = 0, prefix = ''[cart]''\<rparr>), (JStr ''unknown'', \<lparr>serial = 1, prefix = ''[unknown]''\<rparr>)], terminal = [(\<lparr>serial = 0, prefix = ''[cart]''\<rparr>, LoggerInfo ''[info] add''), (\<lparr>serial = 1, prefix = ''[unknown]''\<rparr>, LoggerInfo ''[debug] x''), (\<lparr>serial = 0, prefix = ''[cart]''\<rparr>, LoggerWarn ''[warn] slow'')], server_errors = [] \<rparr>"
  have w0: "cache_wf (loggerCache server_start)" by (simp add: server_start_def cache_wf_def)
  have w1: "cache_wf (loggerCache ?S1)" by (simp add: cache_wf_def)
  have f1: "field ?r1 ''module'' = Some (JStr ''cart'')" and f2: "field ?r2 ''module'' = Some JNull"
    by simp_all
  have h1: "process_log rt ?r1 server_start = Completed ?S1"
    by (simp add: process_log_def getOrCreateLogger_def module_or_unknown_def
        render_message_def dispatch_def nonempty_def server_start_def Let_def)
  have h2: "process_log rt ?r2 ?S1 = Completed ?S2"
    by (simp add: process_log_def getOrCreateLogger_def module_or_unknown_def
        render_message_def dispatch_def nonempty_def Let_def)
  have s2: "run_steps rt [Record ?r2] ?S1 = ?S2"
    by (simp add: run_steps_def h2)
  have h3: "process_log rt ?r3 ?S2 = Completed ?S3"
    by (simp add: process_log_def getOrCreateLogger_def module_or_unknown_def
        render_message_def dispatch_def nonempty_def Let_def)
  have h3': "process_log rt ?r3 (run_steps rt [Record ?r2] ?S1) = Completed ?S3"
    by (simp only: s2 h3)
  have ne: "''cart'' \<noteq> ([] :: string)" by simp
  note t1 = module_routing[OF w0 h1]
  note t2 = module_routing[OF w1 h2]
  from t1 f1 ne have m1: "module_or_unknown ?r1 = JStr ''cart''" by blast
  from t2 f2 have m2: "module_or_unknown ?r2 = JStr ''unknown''" by blast
  have m3: "module_or_unknown ?r3 = JStr ''cart''" by (simp add: module_or_unknown_def)
  from t1 have E: "\<forall>name other steps log2 st3.
            module_or_unknown ?r1 = JStr name \<and> module_or_unknown log2 = JStr other \<and>
            process_log rt log2 (run_steps rt steps ?S1) = Completed st3 \<longrightarrow>
            (\<exists>lg c1 lg2 c2.
               terminal ?S1 = terminal server_start @ [(lg, c1)] \<and>
               terminal st3 = terminal (run_steps rt steps ?S1) @ [(lg2, c2)] \<and>
               (lg2 = lg \<longleftrightarrow> other = name) \<and>
               (other = name \<longrightarrow> loggerCache st3 = loggerCache (run_steps rt steps ?S1)))"
    by (elim conjE)
  from E m1 m3 h3' obtain lg c1 lg2 c2 where
    e: "terminal ?S1 = terminal server_start @ [(lg, c1)]"
       "terminal ?S3 = terminal (run_steps rt [Record ?r2] ?S1) @ [(lg2, c2)]"
       "lg2 = lg" "loggerCache ?S3 = loggerCache (run_steps rt [Record ?r2] ?S1)"
    by blast
  from e(1) have "prefix lg = ''[cart]''" by (auto simp: server_start_def)
  with e have c: "\<exists>lg c1 c2. terminal ?S1 = terminal server_start @ [(lg, c1)] \<and>
                     terminal ?S3 = terminal ?S2 @ [(lg, c2)] \<and> prefix lg = ''[cart]''"
    unfolding s2 by blast
  from e(4) have k: "loggerCache ?S3 = loggerCache ?S2" unfolding s2 .
  from t2 f2 have u: "\<exists>lg call. terminal ?S2 = terminal ?S1 @ [(lg, call)] \<and> prefix lg = ''[unknown]''"
    by blast
  from w0 f1 h1 f2 s2 h3 m1 m2 m3 k c u
  show "cache_wf (loggerCache server_start)
     \<and> field ?r1 ''module'' = Some (JStr ''cart'')
     \<and> process_log rt ?r1 server_start = Completed ?S1
     \<and> field ?r2 ''module'' = Some JNull
     \<and> run_steps rt [Record ?r2] ?S1 = ?S2
     \<and> process_log rt ?r3 ?S2 = Completed ?S3
     \<and> module_or_unknown ?r1 = JStr ''cart''
     \<and> module_or_unknown ?r2 = JStr ''unknown''
     \<and> module_or_unknown ?r3 = JStr ''cart''
     \<and> loggerCache ?S3 = loggerCache ?S2
     \<and> (\<exists>lg c1 c2. terminal ?S1 = terminal server_start @ [(lg, c1)] \<and>
                     terminal ?S3 = terminal ?S2 @ [(lg, c2)] \<and> prefix lg = ''[cart]'')
     \<and> (\<exists>lg call. terminal ?S2 = terminal ?S1 @ [(lg, call)] \<and> prefix lg = ''[unknown]'')"
    by (intro conjI)
qed

section \<open>Bootstrap injection is idempotent\<close>

lemma startsWith_append: "startsWith (p @ s) p"
  by (induction p) auto

lemma str_includes_here: "str_includes (p @ s) p"
  by (cases "p @ s") (use startsWith_append[of p s] in auto)

lemma str_includes_append_left: "str_includes ys p \<Longrightarrow> str_includes (xs @ ys) p"
  by (induction xs) auto

lemma str_includes_middle: "str_includes (xs @ p @ ys) p"
  by (simp add: str_includes_append_left str_includes_here)

text \<open>A replacement text is copied as it is up to its first dollar sign.\<close>

lemma substitution_plain:
  "CHR ''$'' \<notin> set xs \<Longrightarrow> substitution m b a (xs @ ys) = xs @ substitution m b a ys"
proof (induction xs)
  case Nil
  then show ?case by simp
next
  case (Cons x xs)
  then show ?case by (cases "xs @ ys") auto
qed

text \<open>What the hooks inject holds the marker, whatever the module name.\<close>

lemma bootstrap_lines_marker: "str_includes (bootstrap_lines mc @ rest) forwardModuleId"
proof -
  have "bootstrap_lines mc @ rest =
      (''import { setModuleContext } from '' @ quote) @ forwardModuleId @
      (quote @ '';'' @ newline
       @ ''setModuleContext('' @ quote @ mc @ quote @ '');'' @ newline
       @ ''import '' @ quote @ forwardModuleId @ quote @ '';'' @ newline @ rest)"
    by (simp add: bootstrap_lines_def)
  then show ?thesis by (simp only: str_includes_middle)
qed

lemma scriptTag_marker: "str_includes (scriptTag mc @ rest) forwardModuleId"
proof -
  have "scriptTag mc @ rest = (''<script type=\"module\">'' @ newline) @ (bootstrap_lines mc @ ''</script>'' @ rest)"
    by (simp add: scriptTag_def)
  then show ?thesis
    by (simp only: str_includes_append_left[OF bootstrap_lines_marker])
qed

lemma substitution_tag_marker:
  assumes "CHR ''$'' \<notin> set tag"
  shows "str_includes (pre @ substitution m b a (tag @ newline @ scriptTag mc) @ post) forwardModuleId"
proof -
  let ?head = "tag @ newline @ ''<script type=\"module\">'' @ newline @ ''import { setModuleContext } from '' @ quote"
  let ?tail = "quote @ '';'' @ newline
       @ ''setModuleContext('' @ quote @ mc @ quote @ '');'' @ newline
       @ ''import '' @ quote @ forwardModuleId @ quote @ '';'' @ newline @ ''</script>''"
  have t: "tag @ newline @ scriptTag mc = ?head @ forwardModuleId @ ?tail"
    by (simp add: scriptTag_def bootstrap_lines_def)
  have h: "CHR ''$'' \<notin> set ?head" using assms by (simp add: newline_def quote_def)
  have f: "CHR ''$'' \<notin> set forwardModuleId" by (simp add: forwardModuleId_def)
  have "substitution m b a (tag @ newline @ scriptTag mc)
        = ?head @ forwardModuleId @ substitution m b a ?tail"
    unfolding t by (simp only: substitution_plain[OF h] substitution_plain[OF f])
  then have "pre @ substitution m b a (tag @ newline @ scriptTag mc) @ post
        = (pre @ ?head) @ forwardModuleId @ (substitution m b a ?tail @ post)"
    by simp
  then show ?thesis by (simp only: str_includes_middle)
qed

lemma split_at_first_None: "split_at_first p s = None \<Longrightarrow> \<not> str_includes s p"
  by (induction s) (auto split: if_splits)

lemma replace_tag_marker:
  assumes "CHR ''$'' \<notin> set tag" "str_includes html tag"
  shows "str_includes (replace tag (tag @ newline @ scriptTag mc) html) forwardModuleId"
proof (cases "split_at_first tag html")
  case None
  with assms(2) show ?thesis by (auto dest: split_at_first_None)
next
  case (Some ba)
  then show ?thesis
    by (cases ba) (simp add: replace_def substitution_tag_marker[OF assms(1)])
qed

text \<open>
  C9. On an artifact whose text contains the marker, both hooks return \<^verbatim>\<open>undefined\<close>
  and the artifact stays as it is. And what a hook has made of any artifact contains the
  marker, so the hook run again on its own output returns \<^verbatim>\<open>undefined\<close>: the bootstrap
  is not injected twice.
\<close>

theorem injection_idempotent:
  "(str_includes artifact forwardModuleId \<longrightarrow>
      transform isMatch opts artifact ident = None \<and>
      transformIndexHtml isMatch opts artifact ident = None \<and>
      transformed artifact (transform isMatch opts artifact ident) = artifact \<and>
      transformed artifact (transformIndexHtml isMatch opts artifact ident) = artifact)
   \<and> transform isMatch opts (transformed artifact (transform isMatch opts artifact ident)) ident = None
   \<and> transformIndexHtml isMatch opts
        (transformed artifact (transformIndexHtml isMatch opts artifact ident)) ident = None"
proof (intro conjI impI)
  assume m: "str_includes artifact forwardModuleId"
  then show "transform isMatch opts artifact ident = None"
    and "transformIndexHtml isMatch opts artifact ident = None"
    and "transformed artifact (transform isMatch opts artifact ident) = artifact"
    and "transformed artifact (transformIndexHtml isMatch opts artifact ident) = artifact"
    by (simp_all add: transform_def transformIndexHtml_def transformed_def)
next
  show "transform isMatch opts (transformed artifact (transform isMatch opts artifact ident)) ident = None"
  proof (cases "transform isMatch opts artifact ident")
    case None
    then show ?thesis by (simp add: transformed_def)
  next
    case (Some out)
    then have "out = bootstrap_lines (moduleExtractor opts ident) @ artifact"
      by (auto simp: transform_def split: if_splits)
    then have "str_includes out forwardModuleId" by (simp add: bootstrap_lines_marker)
    then show ?thesis using Some by (simp add: transformed_def transform_def)
  qed
next
  show "transformIndexHtml isMatch opts
        (transformed artifact (transformIndexHtml isMatch opts artifact ident)) ident = None"
  proof (cases "transformIndexHtml isMatch opts artifact ident")
    case None
    then show ?thesis by (simp add: transformed_def)
  next
    case (Some out)
    let ?mc = "moduleExtractor opts ident"
    from Some consider
      "str_includes artifact ''<head>''" "out = replace ''<head>'' (''<head>'' @ newline @ scriptTag ?mc) artifact"
      | "str_includes artifact ''<body>''" "out = replace ''<body>'' (''<body>'' @ newline @ scriptTag ?mc) artifact"
      | "str_includes artifact ''<html>''" "out = replace ''<html>'' (''<html>'' @ newline @ scriptTag ?mc) artifact"
      | "out = scriptTag ?mc @ newline @ artifact"
      by (auto simp: transformIndexHtml_def Let_def split: if_splits)
    then have "str_includes out forwardModuleId"
    proof cases
      case 1
      with replace_tag_marker[of "''<head>''" artifact ?mc] show ?thesis by simp
    next
      case 2
      with replace_tag_marker[of "''<body>''" artifact ?mc] show ?thesis by simp
    next
      case 3
      with replace_tag_marker[of "''<html>''" artifact ?mc] show ?thesis by simp
    next
      case 4
      then show ?thesis by (simp only: scriptTag_marker)
    qed
    then show ?thesis using Some by (simp add: transformed_def transformIndexHtml_def)
  qed
qed

text \<open>A script that already imports the forward module.\<close>

theorem injection_idempotent_witness:
  "\<forall>isMatch opts ident.
     str_includes (''import '' @ quote @ ''virtual:console-forward'' @ quote @ '';'' @ newline
                   @ ''console.log(1);'') forwardModuleId
     \<and> transform isMatch opts
         (''import '' @ quote @ ''virtual:console-forward'' @ quote @ '';'' @ newline @ ''console.log(1);'')
         ident = None
     \<and> transformIndexHtml isMatch opts
         (''import '' @ quote @ ''virtual:console-forward'' @ quote @ '';'' @ newline @ ''console.log(1);'')
         ident = None"
proof (intro allI)
  fix isMatch :: "string \<Rightarrow> string list \<Rightarrow> bool" and opts :: plugin_options and ident :: string
  let ?a = "''import '' @ quote @ ''virtual:console-forward'' @ quote @ '';'' @ newline @ ''console.log(1);''"
  have m: "str_includes ?a forwardModuleId"
    by (simp add: forwardModuleId_def quote_def newline_def)
  from injection_idempotent[of ?a isMatch opts ident] m
  have "transform isMatch opts ?a ident = None" "transformIndexHtml isMatch opts ?a ident = None"
    by blast+
  with m show "str_includes ?a forwardModuleId \<and> transform isMatch opts ?a ident = None
     \<and> transformIndexHtml isMatch opts ?a ident = None"
    by blast
qed

end
